theory Spec2Isabelle
  imports Complex_Main
begin

section \<open>Python values and library calls used by the music server\<close>

text \<open>
  Exceptions raised by the modelled code. Every method returns the exception (if any)
  together with the state reached: a Python exception leaves all mutations made before
  it in place.
\<close>

datatype error =
    IndexError string
  | ValueError string
  | KeyError string
  | FileNotFoundError string
  | AttributeError string

text \<open>
  \<^verbatim>\<open>os.path.join(a, b)\<close> on a POSIX system: an absolute second component replaces
  the first one, otherwise the two are joined with exactly one separator.
\<close>

definition path_join :: "string \<Rightarrow> string \<Rightarrow> string" where
  "path_join a b =
     (if b \<noteq> [] \<and> hd b = CHR ''/'' then b
      else if a = [] \<or> last a = CHR ''/'' then a @ b
      else a @ ''/'' @ b)"

text \<open>
  \<^verbatim>\<open>hashlib.sha256().hexdigest()\<close>: the digest bytes written as two lower-case
  hexadecimal digits each. The compression function itself is a parameter
  (\<open>sha256\<close>, from the bytes of the song to the bytes of the digest).
\<close>

definition hexdigits :: string where
  "hexdigits = ''0123456789abcdef''"

definition hexdigest :: "nat list \<Rightarrow> string" where
  "hexdigest bs = concat (map (\<lambda>b. [hexdigits ! ((b div 16) mod 16), hexdigits ! (b mod 16)]) bs)"

text \<open>
  Indexing a \<^verbatim>\<open>collections.deque\<close>: a negative index counts from the right end,
  and anything outside the deque raises IndexError.
\<close>

definition deque_index :: "'a list \<Rightarrow> int \<Rightarrow> error + nat" where
  "deque_index q i =
     (let n = int (length q); j = (if i < 0 then i + n else i)
      in if j < 0 \<or> n \<le> j then Inl (IndexError ''deque index out of range'')
         else Inr (nat j))"

text \<open>\<^verbatim>\<open>int(x)\<close> on a float: truncation towards zero.\<close>

definition py_int :: "real \<Rightarrow> int" where
  "py_int x = (if 0 \<le> x then \<lfloor>x\<rfloor> else \<lceil>x\<rceil>)"

section \<open>Song\<close>

text \<open>
  A \<^verbatim>\<open>Song\<close> object. \<open>ident\<close> is the identity of the object (the class defines no
  \<^verbatim>\<open>__eq__\<close>, so two songs compare equal only when they are the same object). The one
  mutable attribute, \<^verbatim>\<open>_duration\<close>, is shared by every reference to the object and lives
  in a store of its own, keyed by \<open>ident\<close> (see \<open>durations\<close> below); seconds are reals.
\<close>

record Song =
  ident :: nat
  title :: string
  path :: string
  hash :: string

type_synonym durations = "nat \<rightharpoonup> real"

definition Song_duration :: "durations \<Rightarrow> Song \<Rightarrow> real option" where
  "Song_duration d s = d (ident s)"

definition Song_setduration :: "Song \<Rightarrow> real \<Rightarrow> durations \<Rightarrow> durations" where
  "Song_setduration s x d = d(ident s \<mapsto> x)"

section \<open>Playlist\<close>

text \<open>
  The \<^verbatim>\<open>Playlist\<close> object together with the song directory it owns: \<open>files\<close> maps the
  path of every file of the directory to its contents, \<open>writes\<close> lists the paths written
  by \<^verbatim>\<open>_save\<close> (oldest first), and \<open>allocated\<close> counts the Song objects created so
  far (the next object identity). \<open>maxsize\<close> is the attribute \<^verbatim>\<open>_size\<close>.
\<close>

record Playlist =
  queue :: "Song list"
  refcount :: "string \<rightharpoonup> int"
  songdir :: string
  maxsize :: int
  current :: int
  files :: "string \<rightharpoonup> string"
  writes :: "string list"
  allocated :: nat

definition Playlist_clear_all_songs :: "Playlist \<Rightarrow> Playlist" where
  "Playlist_clear_all_songs p = p\<lparr>files := Map.empty\<rparr>"

text \<open>
  The constructor; \<open>old\<close> is what the song directory holds when the server starts.
\<close>

definition Playlist_init :: "string \<Rightarrow> int \<Rightarrow> (string \<rightharpoonup> string) \<Rightarrow> Playlist" where
  "Playlist_init dir n old =
     Playlist_clear_all_songs
       \<lparr>queue = [], refcount = Map.empty, songdir = dir, maxsize = n, current = 0,
        files = old, writes = [], allocated = 0\<rparr>"

definition Playlist_clear :: "Playlist \<Rightarrow> Playlist" where
  "Playlist_clear p =
     (Playlist_clear_all_songs (p\<lparr>queue := [], refcount := Map.empty\<rparr>))\<lparr>current := 0\<rparr>"

definition Playlist_current :: "Playlist \<Rightarrow> error + Song option" where
  "Playlist_current p =
     (if queue p = [] then Inr None
      else case deque_index (queue p) (current p) of
             Inl e \<Rightarrow> Inl e
           | Inr j \<Rightarrow> Inr (Some (queue p ! j)))"

definition Playlist_currentindex :: "Playlist \<Rightarrow> int option" where
  "Playlist_currentindex p = (if queue p = [] then None else Some (current p))"

definition Playlist_hash :: "(string \<Rightarrow> nat list) \<Rightarrow> string \<Rightarrow> string" where
  "Playlist_hash sha256 data = hexdigest (sha256 data)"

definition Playlist_save :: "string \<Rightarrow> string \<Rightarrow> Playlist \<Rightarrow> Playlist" where
  "Playlist_save data name p =
     (let f = path_join (songdir p) name
      in p\<lparr>files := (files p)(f \<mapsto> data), writes := writes p @ [f]\<rparr>)"

definition Playlist_remove_refcount :: "Song \<Rightarrow> Playlist \<Rightarrow> (error + unit) \<times> Playlist" where
  "Playlist_remove_refcount s p =
     (case refcount p (hash s) of
        None \<Rightarrow> (Inl (KeyError (hash s)), p)
      | Some c \<Rightarrow>
          (let newrefcount = c - 1
           in if newrefcount = 0 then
                (if files p (path s) = None then (Inl (FileNotFoundError (path s)), p)
                 else (Inr (), p\<lparr>files := (files p)(path s := None),
                                 refcount := (refcount p)(hash s := None)\<rparr>))
              else (Inr (), p\<lparr>refcount := (refcount p)(hash s \<mapsto> newrefcount)\<rparr>)))"

text \<open>
  The loop of \<^verbatim>\<open>_remove_songs\<close>: \<open>k\<close> times, pop the leftmost song and release it.
\<close>

fun popleft_loop :: "nat \<Rightarrow> Playlist \<Rightarrow> (error + unit) \<times> Playlist" where
  "popleft_loop 0 p = (Inr (), p)"
| "popleft_loop (Suc k) p =
     (case queue p of
        [] \<Rightarrow> (Inl (IndexError ''pop from an empty deque''), p)
      | s # rest \<Rightarrow>
          (case Playlist_remove_refcount s (p\<lparr>queue := rest\<rparr>) of
             (Inl e, p') \<Rightarrow> (Inl e, p')
           | (Inr _, p') \<Rightarrow> popleft_loop k p'))"

definition to_remove :: "Playlist \<Rightarrow> int" where
  "to_remove p = min (current p) (max 0 (int (length (queue p)) - maxsize p))"

definition Playlist_remove_songs :: "Playlist \<Rightarrow> (error + unit) \<times> Playlist" where
  "Playlist_remove_songs p =
     (case popleft_loop (nat (to_remove p)) p of
        (Inl e, p') \<Rightarrow> (Inl e, p')
      | (Inr _, p') \<Rightarrow> (Inr (), p'\<lparr>current := current p' - to_remove p\<rparr>))"

definition Playlist_enqueue ::
  "(string \<Rightarrow> nat list) \<Rightarrow> string \<Rightarrow> string \<Rightarrow> Playlist \<Rightarrow> (error + unit) \<times> Playlist" where
  "Playlist_enqueue sha256 ttl data p =
     (let h = Playlist_hash sha256 data;
          p1 = (case refcount p h of
                  Some c \<Rightarrow> p\<lparr>refcount := (refcount p)(h \<mapsto> c + 1)\<rparr>
                | None \<Rightarrow> (let p0 = Playlist_save data h p
                           in p0\<lparr>refcount := (refcount p0)(h \<mapsto> 1)\<rparr>));
          s = \<lparr>ident = allocated p1, title = ttl, path = path_join (songdir p1) h, hash = h\<rparr>;
          p2 = p1\<lparr>queue := queue p1 @ [s], allocated := Suc (allocated p1)\<rparr>
      in Playlist_remove_songs p2)"

definition Playlist_next :: "Playlist \<Rightarrow> (error + unit) \<times> Playlist" where
  "Playlist_next p =
     (let newindex = current p + 1
      in if newindex > int (length (queue p)) - 1 then (Inl (IndexError ''no more songs''), p)
         else Playlist_remove_songs (p\<lparr>current := newindex\<rparr>))"

definition Playlist_prev :: "Playlist \<Rightarrow> (error + unit) \<times> Playlist" where
  "Playlist_prev p =
     (let newindex = current p - 1
      in if newindex < 0 then (Inl (IndexError ''no more songs''), p)
         else (Inr (), p\<lparr>current := newindex\<rparr>))"

definition Playlist_remove :: "int \<Rightarrow> Playlist \<Rightarrow> (error + unit) \<times> Playlist" where
  "Playlist_remove index p =
     (if index > int (length (queue p)) - 1 then (Inl (IndexError ''no more songs''), p)
      else case deque_index (queue p) index of
             Inl e \<Rightarrow> (Inl e, p)
           | Inr j \<Rightarrow>
               (case Playlist_remove_refcount (queue p ! j) p of
                  (Inl e, p') \<Rightarrow> (Inl e, p')
                | (Inr _, p1) \<Rightarrow>
                    (let p2 = p1\<lparr>queue := take j (queue p1) @ drop (Suc j) (queue p1)\<rparr>;
                         p3 = (if index < current p2 then p2\<lparr>current := current p2 - 1\<rparr> else p2)
                     in (Inr (),
                         p3\<lparr>current := max (min (current p3) (int (length (queue p3)) - 1)) 0\<rparr>))))"

section \<open>Player\<close>

text \<open>
  The playback engine (a GStreamer \<^verbatim>\<open>playbin\<close>) is outside the program. The model
  records the calls made on it, oldest first; what the engine answers comes back as bus
  messages and query results, which are inputs of the model.
\<close>

datatype gst_state = VOID_PENDING | NULL | READY | PAUSED | PLAYING

datatype gst_call =
    Set_state gst_state
  | Set_uri string
  | Set_volume real
  | Seek_simple int

text \<open>
  The messages the polling loop asks the bus for. A state change carries whether its
  source is the pipeline itself, then the old, the new and the pending state.
\<close>

datatype message =
    ERROR
  | EOS
  | SEGMENT_DONE
  | STATE_CHANGED bool gst_state gst_state gst_state

definition Gst_SECOND :: real where
  "Gst_SECOND = 1000000000"

record Player =
  state :: string
  closing :: bool
  song :: "Song option"
  position :: "real option"
  pipeline :: "gst_call list"

definition Player_STATES :: "gst_state \<rightharpoonup> string" where
  "Player_STATES =
     [NULL \<mapsto> ''stop'', READY \<mapsto> ''stop'', PAUSED \<mapsto> ''pause'', PLAYING \<mapsto> ''play'']"

definition Player_init :: Player where
  "Player_init = \<lparr>state = ''stop'', closing = False, song = None, position = None, pipeline = []\<rparr>"

definition gst :: "gst_call list \<Rightarrow> Player \<Rightarrow> Player" where
  "gst cs pl = pl\<lparr>pipeline := pipeline pl @ cs\<rparr>"

definition Player_close :: "Player \<Rightarrow> Player" where
  "Player_close pl = pl\<lparr>closing := True\<rparr>"

definition Player_pause :: "Player \<Rightarrow> (error + unit) \<times> Player" where
  "Player_pause pl =
     (if state pl = ''play'' then (Inr (), gst [Set_state PAUSED] pl)
      else (Inl (ValueError ''player not in PLAY state''), pl))"

text \<open>\<^verbatim>\<open>self._song != song\<close>: comparison of object identities, \<^verbatim>\<open>None\<close> included.\<close>

definition differs :: "Song option \<Rightarrow> Song option \<Rightarrow> bool" where
  "differs a b =
     (case (a, b) of
        (None, None) \<Rightarrow> False
      | (Some x, Some y) \<Rightarrow> ident x \<noteq> ident y
      | _ \<Rightarrow> True)"

text \<open>
  \<open>Set_uri f\<close> stands for setting the property \<^verbatim>\<open>uri\<close> to \<^verbatim>\<open>file://\<close> followed by
  the absolute form of the path \<open>f\<close>.
\<close>

definition Player_play :: "Song option \<Rightarrow> Player \<Rightarrow> (error + unit) \<times> Player" where
  "Player_play s pl =
     (if differs (song pl) s then
        (let pl1 = pl\<lparr>song := s\<rparr>
         in case s of
              None \<Rightarrow> (Inl (AttributeError ''path''), pl1)
            | Some x \<Rightarrow> (Inr (), gst [Set_state PLAYING] (gst [Set_uri (path x)] pl1)))
      else (Inr (), gst [Set_state PLAYING] pl))"

definition Player_seek :: "durations \<Rightarrow> real \<Rightarrow> Player \<Rightarrow> (error + unit) \<times> Player" where
  "Player_seek d pos pl =
     (if \<not> (0 \<le> pos \<and> pos \<le> 1) then (Inl (ValueError ''wrong position value''), pl)
      else if state pl \<noteq> ''stop'' then
        (case song pl of
           None \<Rightarrow> (Inl (AttributeError ''duration''), pl)
         | Some s \<Rightarrow>
             (case Song_duration d s of
                None \<Rightarrow> (Inl (ValueError ''player stopped''), pl)
              | Some dur \<Rightarrow> (Inr (), gst [Seek_simple (py_int (dur * pos * Gst_SECOND))] pl)))
      else (Inl (ValueError ''player stopped''), pl))"

definition Player_setvolume :: "real \<Rightarrow> Player \<Rightarrow> (error + unit) \<times> Player" where
  "Player_setvolume v pl =
     (if \<not> (0 \<le> v \<and> v \<le> 1) then (Inl (ValueError ''wrong volume''), pl)
      else (Inr (), gst [Set_volume v] pl))"

definition Player_skipbackwards :: "durations \<Rightarrow> Player \<Rightarrow> (error + unit) \<times> Player" where
  "Player_skipbackwards d pl =
     (if state pl \<noteq> ''stop'' then
        (case song pl of
           None \<Rightarrow> (Inl (AttributeError ''duration''), pl)
         | Some s \<Rightarrow>
             (case Song_duration d s of
                None \<Rightarrow> (Inl (ValueError ''player stopped''), pl)
              | Some dur \<Rightarrow>
                  (case position pl of
                     None \<Rightarrow> (Inl (ValueError ''player stopped''), pl)
                   | Some pos \<Rightarrow>
                       (let newpos = max (pos - 10) 0
                        in (Inr (), gst [Seek_simple (py_int (newpos * Gst_SECOND))] pl)))))
      else (Inl (ValueError ''player stopped''), pl))"

definition Player_skipforwards :: "durations \<Rightarrow> Player \<Rightarrow> (error + unit) \<times> Player" where
  "Player_skipforwards d pl =
     (if state pl \<noteq> ''stop'' then
        (case song pl of
           None \<Rightarrow> (Inl (AttributeError ''duration''), pl)
         | Some s \<Rightarrow>
             (case Song_duration d s of
                None \<Rightarrow> (Inl (ValueError ''player stopped''), pl)
              | Some dur \<Rightarrow>
                  (case position pl of
                     None \<Rightarrow> (Inl (ValueError ''player stopped''), pl)
                   | Some pos \<Rightarrow>
                       (let newpos = min (pos + 10) dur
                        in (Inr (), gst [Seek_simple (py_int (newpos * Gst_SECOND))] pl)))))
      else (Inl (ValueError ''player stopped''), pl))"

definition Player_stop :: "Player \<Rightarrow> Player" where
  "Player_stop pl = gst [Set_state READY] pl"

text \<open>
  \<^verbatim>\<open>_update_song_attributes\<close>; \<open>qd\<close> and \<open>qp\<close> are what the engine answers to the
  duration and the position query (success flag and nanoseconds). The duration is asked
  for only while the song has none.
\<close>

definition Player_update_song_attributes ::
  "bool \<times> int \<Rightarrow> bool \<times> int \<Rightarrow> durations \<Rightarrow> Player \<Rightarrow> (error + unit) \<times> Player \<times> durations" where
  "Player_update_song_attributes qd qp d pl =
     (case song pl of
        None \<Rightarrow> (Inl (AttributeError ''duration''), pl, d)
      | Some s \<Rightarrow>
          (let d1 = (if Song_duration d s = None \<and> fst qd
                     then Song_setduration s (real_of_int (snd qd) / 1000000000) d else d);
               pl1 = (if fst qp then pl\<lparr>position := Some (real_of_int (snd qp) / 1000000000)\<rparr>
                      else pl)
           in (Inr (), pl1, d1)))"

section \<open>MusicServer\<close>

record MusicServer =
  player :: Player
  playlist :: Playlist
  durations :: durations

definition DEFAULT_SONGDIR :: string where
  "DEFAULT_SONGDIR = ''/var/lib/musicserver/songs''"

definition DEFAULT_PLAYLIST_SIZE :: int where
  "DEFAULT_PLAYLIST_SIZE = 10"

text \<open>
  The constructor, given the two configuration entries (absent ones take the defaults)
  and the initial content of the song directory.
\<close>

definition MusicServer_init ::
  "string option \<Rightarrow> int option \<Rightarrow> (string \<rightharpoonup> string) \<Rightarrow> MusicServer" where
  "MusicServer_init cfg_songdir cfg_playlistsize old =
     \<lparr>player = Player_init,
      playlist = Playlist_init
        (case cfg_songdir of Some d \<Rightarrow> d | None \<Rightarrow> DEFAULT_SONGDIR)
        (case cfg_playlistsize of Some n \<Rightarrow> n | None \<Rightarrow> DEFAULT_PLAYLIST_SIZE) old,
      durations = Map.empty\<rparr>"

definition MusicServer_clear :: "MusicServer \<Rightarrow> MusicServer" where
  "MusicServer_clear ms =
     (let ms1 = ms\<lparr>player := Player_stop (player ms)\<rparr>
      in ms1\<lparr>playlist := Playlist_clear (playlist ms1)\<rparr>)"

definition MusicServer_close :: "MusicServer \<Rightarrow> MusicServer" where
  "MusicServer_close ms = ms\<lparr>player := Player_close (player ms)\<rparr>"

definition MusicServer_enqueue ::
  "(string \<Rightarrow> nat list) \<Rightarrow> string \<Rightarrow> string \<Rightarrow> MusicServer \<Rightarrow> (error + unit) \<times> MusicServer" where
  "MusicServer_enqueue sha256 ttl data ms =
     (case Playlist_enqueue sha256 ttl data (playlist ms) of
        (r, p') \<Rightarrow> (r, ms\<lparr>playlist := p'\<rparr>))"

text \<open>
  The tail shared by \<^verbatim>\<open>next\<close> and \<^verbatim>\<open>prev\<close>:
  \<^verbatim>\<open>if player_state == 'play': self._player.play(self._playlist.current)\<close>.
\<close>

definition resume :: "string \<Rightarrow> MusicServer \<Rightarrow> (error + unit) \<times> MusicServer" where
  "resume player_state ms =
     (if player_state = ''play'' then
        (case Playlist_current (playlist ms) of
           Inl e \<Rightarrow> (Inl e, ms)
         | Inr s \<Rightarrow> (case Player_play s (player ms) of (r, pl') \<Rightarrow> (r, ms\<lparr>player := pl'\<rparr>)))
      else (Inr (), ms))"

definition MusicServer_next :: "MusicServer \<Rightarrow> (error + unit) \<times> MusicServer" where
  "MusicServer_next ms =
     (let player_state = state (player ms);
          ms1 = ms\<lparr>player := Player_stop (player ms)\<rparr>
      in case Playlist_next (playlist ms1) of
           (Inl e, p') \<Rightarrow> (Inl e, ms1\<lparr>playlist := p'\<rparr>)
         | (Inr _, p') \<Rightarrow> resume player_state (ms1\<lparr>playlist := p'\<rparr>))"

definition MusicServer_pause :: "MusicServer \<Rightarrow> (error + unit) \<times> MusicServer" where
  "MusicServer_pause ms =
     (case Player_pause (player ms) of (r, pl') \<Rightarrow> (r, ms\<lparr>player := pl'\<rparr>))"

definition MusicServer_play :: "MusicServer \<Rightarrow> (error + unit) \<times> MusicServer" where
  "MusicServer_play ms =
     (case Playlist_current (playlist ms) of
        Inl e \<Rightarrow> (Inl e, ms)
      | Inr None \<Rightarrow> (Inl (IndexError ''no songs to play''), ms)
      | Inr (Some s) \<Rightarrow>
          (case Player_play (Some s) (player ms) of (r, pl') \<Rightarrow> (r, ms\<lparr>player := pl'\<rparr>)))"

definition MusicServer_prev :: "MusicServer \<Rightarrow> (error + unit) \<times> MusicServer" where
  "MusicServer_prev ms =
     (let player_state = state (player ms);
          ms1 = ms\<lparr>player := Player_stop (player ms)\<rparr>
      in case Playlist_prev (playlist ms1) of
           (Inl e, p') \<Rightarrow> (Inl e, ms1\<lparr>playlist := p'\<rparr>)
         | (Inr _, p') \<Rightarrow> resume player_state (ms1\<lparr>playlist := p'\<rparr>))"

text \<open>\<^verbatim>\<open>playereos\<close> catches IndexError and nothing else.\<close>

definition MusicServer_playereos :: "MusicServer \<Rightarrow> (error + unit) \<times> MusicServer" where
  "MusicServer_playereos ms =
     (case MusicServer_next ms of
        (Inl (IndexError m), ms') \<Rightarrow> (Inr (), ms')
      | r \<Rightarrow> r)"

text \<open>\<^verbatim>\<open>playererror\<close> writes two lines to the log, which is not modelled.\<close>

definition MusicServer_playererror :: "MusicServer \<Rightarrow> (error + unit) \<times> MusicServer" where
  "MusicServer_playererror ms = (Inr (), ms)"

definition MusicServer_remove :: "int \<Rightarrow> MusicServer \<Rightarrow> (error + unit) \<times> MusicServer" where
  "MusicServer_remove index ms =
     (if index < 0 then (Inl (ValueError ''index must be non-negative''), ms)
      else if Some index = Playlist_currentindex (playlist ms) then
        (let player_state = state (player ms);
             ms1 = ms\<lparr>player := Player_stop (player ms)\<rparr>
         in case Playlist_remove index (playlist ms1) of
              (Inl e, p') \<Rightarrow> (Inl e, ms1\<lparr>playlist := p'\<rparr>)
            | (Inr _, p') \<Rightarrow>
                (let ms2 = ms1\<lparr>playlist := p'\<rparr>
                 in case Playlist_current (playlist ms2) of
                      Inl e \<Rightarrow> (Inl e, ms2)
                    | Inr s \<Rightarrow>
                        (if player_state = ''play'' \<and> s \<noteq> None then
                           (case Player_play s (player ms2) of
                              (r, pl') \<Rightarrow> (r, ms2\<lparr>player := pl'\<rparr>))
                         else (Inr (), ms2))))
      else
        (case Playlist_remove index (playlist ms) of (r, p') \<Rightarrow> (r, ms\<lparr>playlist := p'\<rparr>)))"

definition MusicServer_seek :: "real \<Rightarrow> MusicServer \<Rightarrow> (error + unit) \<times> MusicServer" where
  "MusicServer_seek pos ms =
     (case Player_seek (durations ms) pos (player ms) of (r, pl') \<Rightarrow> (r, ms\<lparr>player := pl'\<rparr>))"

definition MusicServer_setvolume :: "real \<Rightarrow> MusicServer \<Rightarrow> (error + unit) \<times> MusicServer" where
  "MusicServer_setvolume v ms =
     (case Player_setvolume v (player ms) of (r, pl') \<Rightarrow> (r, ms\<lparr>player := pl'\<rparr>))"

definition MusicServer_skipbackwards :: "MusicServer \<Rightarrow> (error + unit) \<times> MusicServer" where
  "MusicServer_skipbackwards ms =
     (case Player_skipbackwards (durations ms) (player ms) of
        (r, pl') \<Rightarrow> (r, ms\<lparr>player := pl'\<rparr>))"

definition MusicServer_skipforwards :: "MusicServer \<Rightarrow> (error + unit) \<times> MusicServer" where
  "MusicServer_skipforwards ms =
     (case Player_skipforwards (durations ms) (player ms) of
        (r, pl') \<Rightarrow> (r, ms\<lparr>player := pl'\<rparr>))"

definition MusicServer_stop :: "MusicServer \<Rightarrow> (error + unit) \<times> MusicServer" where
  "MusicServer_stop ms =
     (if state (player ms) = ''stop'' then (Inl (ValueError ''already stopped''), ms)
      else (Inr (), ms\<lparr>player := Player_stop (player ms)\<rparr>))"

section \<open>The polling loop\<close>

text \<open>
  \<^verbatim>\<open>Player._handle_message\<close>. The listener of the player is the MusicServer, so the
  function works on the state of the server.
\<close>

definition Player_handle_message :: "message \<Rightarrow> MusicServer \<Rightarrow> (error + unit) \<times> MusicServer" where
  "Player_handle_message msg ms =
     (case msg of
        ERROR \<Rightarrow> MusicServer_playererror ms
      | EOS \<Rightarrow> MusicServer_playereos ms
      | SEGMENT_DONE \<Rightarrow> MusicServer_playereos ms
      | STATE_CHANGED from_pipeline oldstate newstate pending \<Rightarrow>
          (if from_pipeline then
             (case Player_STATES newstate of
                None \<Rightarrow> (Inl (KeyError ''newstate''), ms)
              | Some st \<Rightarrow>
                  (let pl1 = (player ms)\<lparr>state := st\<rparr>;
                       pl2 = (if state pl1 = ''stop'' then pl1\<lparr>position := None\<rparr> else pl1)
                   in (Inr (), ms\<lparr>player := pl2\<rparr>)))
           else (Inr (), ms)))"

text \<open>
  One turn of the loop of \<^verbatim>\<open>Player.run\<close>: \<open>msg\<close> is what the bus returns, \<open>qd\<close> and
  \<open>qp\<close> what the engine would answer to the two queries.
\<close>

definition Player_run_step ::
  "message option \<Rightarrow> bool \<times> int \<Rightarrow> bool \<times> int \<Rightarrow> MusicServer \<Rightarrow> (error + unit) \<times> MusicServer" where
  "Player_run_step msg qd qp ms =
     (case msg of
        Some m \<Rightarrow> Player_handle_message m ms
      | None \<Rightarrow>
          (if state (player ms) \<noteq> ''stop'' then
             (case Player_update_song_attributes qd qp (durations ms) (player ms) of
                (r, pl', d') \<Rightarrow> (r, ms\<lparr>player := pl', durations := d'\<rparr>))
           else (Inr (), ms\<lparr>player := (player ms)\<lparr>position := None\<rparr>\<rparr>)))"

section \<open>Sequences of calls and the properties they keep\<close>

text \<open>
  A client drives the playlist through five methods. \<open>Playlist_apply\<close> is the state
  after one call, whether the call returned or raised, and \<open>Playlist_run\<close> the state
  after a sequence of calls.
\<close>

datatype playlist_op = Enqueue string string | Remove int | Next | Prev | Clear

fun Playlist_apply :: "(string \<Rightarrow> nat list) \<Rightarrow> playlist_op \<Rightarrow> Playlist \<Rightarrow> Playlist" where
  "Playlist_apply sha256 (Enqueue ttl data) p = snd (Playlist_enqueue sha256 ttl data p)"
| "Playlist_apply sha256 (Remove index) p = snd (Playlist_remove index p)"
| "Playlist_apply sha256 Next p = snd (Playlist_next p)"
| "Playlist_apply sha256 Prev p = snd (Playlist_prev p)"
| "Playlist_apply sha256 Clear p = Playlist_clear p"

definition Playlist_run :: "(string \<Rightarrow> nat list) \<Rightarrow> playlist_op list \<Rightarrow> Playlist \<Rightarrow> Playlist" where
  "Playlist_run sha256 ops p = fold (Playlist_apply sha256) ops p"

text \<open>The number of slots of a queue that hold a song with the hash \<open>h\<close>.\<close>

definition slots :: "Song list \<Rightarrow> string \<Rightarrow> nat" where
  "slots q h = length (filter (\<lambda>s. hash s = h) q)"

text \<open>
  The track store agrees with the slots \<open>q\<close>: the reference count of a hash is the
  number of slots holding it (and the hash has no entry when there is none), the files
  of the song directory are the blobs of the hashes with an entry, and every slot knows
  the path of its blob.
\<close>

definition store_ok :: "Song list \<Rightarrow> Playlist \<Rightarrow> bool" where
  "store_ok q p \<longleftrightarrow>
     (\<forall>h. refcount p h = (if slots q h = 0 then None else Some (int (slots q h)))) \<and>
     (\<forall>f. (files p f \<noteq> None) = (\<exists>h. refcount p h \<noteq> None \<and> f = path_join (songdir p) h)) \<and>
     (\<forall>s\<in>set q. path s = path_join (songdir p) (hash s) \<and> CHR ''/'' \<notin> set (hash s))"

definition cursor_ok :: "Playlist \<Rightarrow> bool" where
  "cursor_ok p \<longleftrightarrow>
     (if queue p = [] then current p = 0
      else 0 \<le> current p \<and> current p \<le> int (length (queue p)) - 1)"

definition Playlist_inv :: "Playlist \<Rightarrow> bool" where
  "Playlist_inv p \<longleftrightarrow> store_ok (queue p) p \<and> cursor_ok p"

text \<open>The state of enqueue just before the eviction routine runs.\<close>

definition enq_pre :: "(string \<Rightarrow> nat list) \<Rightarrow> string \<Rightarrow> string \<Rightarrow> Playlist \<Rightarrow> Playlist" where
  "enq_pre sha256 ttl data p =
     (let h = Playlist_hash sha256 data;
          p1 = (case refcount p h of
                  Some c \<Rightarrow> p\<lparr>refcount := (refcount p)(h \<mapsto> c + 1)\<rparr>
                | None \<Rightarrow> (let p0 = Playlist_save data h p
                           in p0\<lparr>refcount := (refcount p0)(h \<mapsto> 1)\<rparr>));
          s = \<lparr>ident = allocated p1, title = ttl, path = path_join (songdir p1) h, hash = h\<rparr>
      in p1\<lparr>queue := queue p1 @ [s], allocated := Suc (allocated p1)\<rparr>)"

text \<open>
  The state last asked of the engine: the argument of the most recent
  \<^verbatim>\<open>set_state\<close> call, if there was one.
\<close>

fun requested :: "gst_call list \<Rightarrow> gst_state option" where
  "requested [] = None"
| "requested (c # cs) =
     (case requested cs of
        Some t \<Rightarrow> Some t
      | None \<Rightarrow> (case c of Set_state s \<Rightarrow> Some s | _ \<Rightarrow> None))"

section \<open>Example states\<close>

text \<open>
  A playlist of capacity one holding two songs, with the cursor on the second: the state
  in which \<^verbatim>\<open>next\<close> calls the eviction routine.
\<close>

definition ex_evict :: Playlist where
  "ex_evict =
     \<lparr>queue = [\<lparr>ident = 0, title = ''A'', path = ''/s/aa'', hash = ''aa''\<rparr>,
               \<lparr>ident = 1, title = ''B'', path = ''/s/bb'', hash = ''bb''\<rparr>],
      refcount = [''aa'' \<mapsto> 1, ''bb'' \<mapsto> 1], songdir = ''/s'', maxsize = 1, current = 1,
      files = [''/s/aa'' \<mapsto> ''x'', ''/s/bb'' \<mapsto> ''y''], writes = [''/s/aa'', ''/s/bb''],
      allocated = 2\<rparr>"

text \<open>
  A stand-in for the digest, and three runs from the empty playlist: two songs with the
  same bytes in a playlist of capacity one, followed by \<^verbatim>\<open>next\<close>; the same two songs
  in a playlist of capacity ten; and that run followed by the removal of the first slot.
\<close>

definition ex_sha :: "string \<Rightarrow> nat list" where
  "ex_sha data = [length data]"

definition ex_run :: Playlist where
  "ex_run = Playlist_run ex_sha [Enqueue ''A'' ''x'', Enqueue ''B'' ''x'', Next] (Playlist_init ''/s'' 1 Map.empty)"

definition ex_two :: Playlist where
  "ex_two = Playlist_run ex_sha [Enqueue ''A'' ''x'', Enqueue ''B'' ''x''] (Playlist_init ''/s'' 10 Map.empty)"

definition ex_one :: Playlist where
  "ex_one = Playlist_run ex_sha [Enqueue ''A'' ''x'', Enqueue ''B'' ''x'', Remove 0] (Playlist_init ''/s'' 10 Map.empty)"

text \<open>Three songs in a playlist of capacity ten, the cursor on the second.\<close>

definition ex_three :: Playlist where
  "ex_three = Playlist_run ex_sha
     [Enqueue ''A'' ''x'', Enqueue ''B'' ''x'', Enqueue ''C'' ''x'', Next]
     (Playlist_init ''/s'' 10 Map.empty)"

text \<open>
  A server with one song, playing: the song was enqueued, play was called, and the
  engine has reported the state PLAYING.
\<close>

definition ex_playing :: MusicServer where
  "ex_playing =
     snd (Player_handle_message (STATE_CHANGED True PAUSED PLAYING VOID_PENDING)
       (snd (MusicServer_play
         (snd (MusicServer_enqueue ex_sha ''A'' ''x''
           (MusicServer_init (Some ''/s'') (Some 10) Map.empty))))))"

text \<open>
  A server with two songs, playing the first; the same server after a successful
  \<^verbatim>\<open>next\<close>; and the first one paused (pause was called and the engine has reported
  PAUSED).
\<close>

definition ex_two_playing :: MusicServer where
  "ex_two_playing =
     snd (Player_handle_message (STATE_CHANGED True PAUSED PLAYING VOID_PENDING)
       (snd (MusicServer_play
         (snd (MusicServer_enqueue ex_sha ''B'' ''x''
           (snd (MusicServer_enqueue ex_sha ''A'' ''x''
             (MusicServer_init (Some ''/s'') (Some 10) Map.empty))))))))"

definition ex_second_playing :: MusicServer where
  "ex_second_playing = snd (MusicServer_next ex_two_playing)"

definition ex_two_paused :: MusicServer where
  "ex_two_paused =
     snd (Player_handle_message (STATE_CHANGED True PLAYING PAUSED VOID_PENDING)
       (snd (MusicServer_pause ex_two_playing)))"

text \<open>
  The playing server after one idle turn of the polling loop in which the engine
  answered the duration query (100 seconds) but not the position query; and after a
  turn in which it answered both (position 5 seconds).
\<close>

definition ex_no_position :: MusicServer where
  "ex_no_position = snd (Player_run_step None (True, 100000000000) (False, 0) ex_playing)"

definition ex_positioned :: MusicServer where
  "ex_positioned = snd (Player_run_step None (True, 100000000000) (True, 5000000000) ex_playing)"

section \<open>Library facts\<close>

lemma hexdigits_nth: "n < 16 \<Longrightarrow> hexdigits ! n \<noteq> CHR ''/''"
proof -
  assume "n < 16"
  then have "n < length hexdigits" by (simp add: hexdigits_def)
  then have "hexdigits ! n \<in> set hexdigits" by (rule nth_mem)
  moreover have "CHR ''/'' \<notin> set hexdigits" by (simp add: hexdigits_def)
  ultimately show ?thesis by metis
qed

lemma hexdigit_mod: "hexdigits ! (n mod 16) \<noteq> CHR ''/''"
  by (rule hexdigits_nth) simp

lemma hexdigest_no_slash: "CHR ''/'' \<notin> set (hexdigest bs)"
  using hexdigit_mod by (fastforce simp: hexdigest_def)

lemma path_join_inj:
  "CHR ''/'' \<notin> set a \<Longrightarrow> CHR ''/'' \<notin> set b \<Longrightarrow> path_join d a = path_join d b \<Longrightarrow> a = b"
  by (cases a; cases b) (auto simp: path_join_def split: if_splits)

lemma slots_append [simp]: "slots (xs @ ys) h = slots xs h + slots ys h"
  by (simp add: slots_def)

lemma slots_Cons [simp]: "slots (s # q) h = (if hash s = h then Suc (slots q h) else slots q h)"
  by (simp add: slots_def)

lemma slots_Nil [simp]: "slots [] h = 0"
  by (simp add: slots_def)

lemma slots_pos_mem: "slots q h \<noteq> 0 \<Longrightarrow> \<exists>s\<in>set q. hash s = h"
  by (induction q) (auto split: if_splits)

lemma remove_refcount_frame [simp]:
  "queue (snd (Playlist_remove_refcount s p)) = queue p"
  "songdir (snd (Playlist_remove_refcount s p)) = songdir p"
  "maxsize (snd (Playlist_remove_refcount s p)) = maxsize p"
  "current (snd (Playlist_remove_refcount s p)) = current p"
  "writes (snd (Playlist_remove_refcount s p)) = writes p"
  "allocated (snd (Playlist_remove_refcount s p)) = allocated p"
  by (simp_all add: Playlist_remove_refcount_def Let_def split: option.splits)

lemma store_ok_key_no_slash:
  "store_ok q p \<Longrightarrow> refcount p h \<noteq> None \<Longrightarrow> CHR ''/'' \<notin> set h"
proof -
  assume ok: "store_ok q p" and "refcount p h \<noteq> None"
  then have "slots q h \<noteq> 0" by (auto simp: store_ok_def split: if_splits)
  then obtain s where "s \<in> set q" "hash s = h" using slots_pos_mem by blast
  with ok show ?thesis by (auto simp: store_ok_def)
qed

lemma remove_refcount_ok:
  assumes ok: "store_ok (q1 @ s # q2) p"
  shows "fst (Playlist_remove_refcount s p) = Inr ()"
    and "store_ok (q1 @ q2) (snd (Playlist_remove_refcount s p))"
    and "files (snd (Playlist_remove_refcount s p)) \<subseteq>\<^sub>m files p"
proof -
  let ?h = "hash s"
  let ?n = "slots (q1 @ q2) ?h"
  from ok have rc: "refcount p ?h = Some (int ?n + 1)"
    by (simp add: store_ok_def)
  from ok have ps: "path s = path_join (songdir p) ?h" and ns: "CHR ''/'' \<notin> set ?h"
    by (simp_all add: store_ok_def)
  from ok rc have fe: "files p (path s) \<noteq> None"
    unfolding store_ok_def ps by (metis option.distinct(1))
  show "fst (Playlist_remove_refcount s p) = Inr ()"
    using rc fe by (auto simp: Playlist_remove_refcount_def Let_def)
  show "files (snd (Playlist_remove_refcount s p)) \<subseteq>\<^sub>m files p"
    using rc fe by (auto simp: Playlist_remove_refcount_def Let_def map_le_def)
  show "store_ok (q1 @ q2) (snd (Playlist_remove_refcount s p))"
  proof (cases "?n = 0")
    case True
    then have eq: "snd (Playlist_remove_refcount s p) =
        p\<lparr>files := (files p)(path s := None), refcount := (refcount p)(?h := None)\<rparr>"
      using rc fe by (auto simp: Playlist_remove_refcount_def Let_def)
    have inj: "\<And>h. refcount p h \<noteq> None \<Longrightarrow> path_join (songdir p) h = path s \<Longrightarrow> h = ?h"
      using path_join_inj [OF _ ns] store_ok_key_no_slash [OF ok] ps by metis
    have 1: "\<forall>h. ((refcount p)(?h := None)) h =
        (if slots (q1 @ q2) h = 0 then None else Some (int (slots (q1 @ q2) h)))"
      using ok True by (auto simp: store_ok_def)
    have 2: "\<forall>f. (((files p)(path s := None)) f \<noteq> None) =
        (\<exists>h. ((refcount p)(?h := None)) h \<noteq> None \<and> f = path_join (songdir p) h)"
    proof
      fix f
      from ok have F: "(files p f \<noteq> None) = (\<exists>h. refcount p h \<noteq> None \<and> f = path_join (songdir p) h)"
        by (simp add: store_ok_def)
      show "(((files p)(path s := None)) f \<noteq> None) =
        (\<exists>h. ((refcount p)(?h := None)) h \<noteq> None \<and> f = path_join (songdir p) h)"
      proof (cases "f = path s")
        case True
        then show ?thesis using inj by auto
      next
        case False
        then have "\<And>h. f = path_join (songdir p) h \<Longrightarrow> h \<noteq> hash s"
          using ps by auto
        then have "(\<exists>h. refcount p h \<noteq> None \<and> f = path_join (songdir p) h) =
            (\<exists>h. ((refcount p)(hash s := None)) h \<noteq> None \<and> f = path_join (songdir p) h)"
          by (metis fun_upd_apply)
        with False F show ?thesis by simp
      qed
    qed
    have 3: "\<forall>x\<in>set (q1 @ q2). path x = path_join (songdir p) (hash x) \<and> CHR ''/'' \<notin> set (hash x)"
      using ok by (auto simp: store_ok_def)
    show ?thesis unfolding eq store_ok_def using 1 2 3 by simp
  next
    case False
    then have eq: "snd (Playlist_remove_refcount s p) = p\<lparr>refcount := (refcount p)(?h \<mapsto> int ?n)\<rparr>"
      using rc by (auto simp: Playlist_remove_refcount_def Let_def)
    have 1: "\<forall>h. ((refcount p)(?h \<mapsto> int ?n)) h =
        (if slots (q1 @ q2) h = 0 then None else Some (int (slots (q1 @ q2) h)))"
      using ok False by (auto simp: store_ok_def)
    have 2: "\<forall>f. (files p f \<noteq> None) =
        (\<exists>h. ((refcount p)(?h \<mapsto> int ?n)) h \<noteq> None \<and> f = path_join (songdir p) h)"
    proof
      fix f
      from ok have F: "(files p f \<noteq> None) = (\<exists>h. refcount p h \<noteq> None \<and> f = path_join (songdir p) h)"
        by (simp add: store_ok_def)
      show "(files p f \<noteq> None) =
        (\<exists>h. ((refcount p)(?h \<mapsto> int ?n)) h \<noteq> None \<and> f = path_join (songdir p) h)"
        unfolding F using rc by (metis fun_upd_apply option.distinct(1))
    qed
    have 3: "\<forall>x\<in>set (q1 @ q2). path x = path_join (songdir p) (hash x) \<and> CHR ''/'' \<notin> set (hash x)"
      using ok by (auto simp: store_ok_def)
    show ?thesis unfolding eq store_ok_def using 1 2 3 by simp
  qed
qed

section \<open>The eviction loop\<close>

lemma popleft_loop_Nil: "queue p = [] \<Longrightarrow> popleft_loop (Suc k) p = (Inl (IndexError ''pop from an empty deque''), p)"
  by simp

lemma popleft_loop_Cons:
  "queue p = s # rest \<Longrightarrow>
   popleft_loop (Suc k) p =
     (case fst (Playlist_remove_refcount s (p\<lparr>queue := rest\<rparr>)) of
        Inl e \<Rightarrow> Playlist_remove_refcount s (p\<lparr>queue := rest\<rparr>)
      | Inr u \<Rightarrow> popleft_loop k (snd (Playlist_remove_refcount s (p\<lparr>queue := rest\<rparr>))))"
  by (cases "Playlist_remove_refcount s (p\<lparr>queue := rest\<rparr>)") (simp split: sum.splits)

lemma popleft_loop_frame [simp]:
  "songdir (snd (popleft_loop k p)) = songdir p \<and>
   maxsize (snd (popleft_loop k p)) = maxsize p \<and>
   current (snd (popleft_loop k p)) = current p \<and>
   writes (snd (popleft_loop k p)) = writes p \<and>
   allocated (snd (popleft_loop k p)) = allocated p"
proof (induction k arbitrary: p)
  case 0
  show ?case by simp
next
  case (Suc k)
  show ?case
  proof (cases "queue p")
    case Nil
    then show ?thesis by (simp only: popleft_loop_Nil snd_conv) 
  next
    case (Cons s rest)
    show ?thesis
    proof (cases "fst (Playlist_remove_refcount s (p\<lparr>queue := rest\<rparr>))")
      case (Inl e)
      then show ?thesis by (simp only: popleft_loop_Cons [OF Cons] sum.case) simp
    next
      case (Inr u)
      then show ?thesis by (simp only: popleft_loop_Cons [OF Cons] sum.case Suc.IH) simp
    qed
  qed
qed


lemma popleft_loop_ok:
  "store_ok (queue p) p \<Longrightarrow> k \<le> length (queue p) \<Longrightarrow>
     fst (popleft_loop k p) = Inr () \<and>
     queue (snd (popleft_loop k p)) = drop k (queue p) \<and>
     store_ok (drop k (queue p)) (snd (popleft_loop k p)) \<and>
     files (snd (popleft_loop k p)) \<subseteq>\<^sub>m files p"
proof (induction k arbitrary: p)
  case 0
  then show ?case by simp
next
  case (Suc k)
  then obtain s rest where q: "queue p = s # rest" by (cases "queue p") auto
  let ?p0 = "p\<lparr>queue := rest\<rparr>"
  let ?p1 = "snd (Playlist_remove_refcount s ?p0)"
  have ok0: "store_ok ([] @ s # rest) ?p0"
    using Suc.prems(1) q by (simp add: store_ok_def)
  note r = remove_refcount_ok [OF ok0]
  have q1: "queue ?p1 = rest" by simp
  have ok1: "store_ok (queue ?p1) ?p1" using r(2) q1 by simp
  have k: "k \<le> length (queue ?p1)" using Suc.prems(2) q by simp
  note ih = Suc.IH [OF ok1 k]
  have step: "popleft_loop (Suc k) p = popleft_loop k ?p1"
    by (simp only: popleft_loop_Cons [OF q] r(1) sum.case)
  have "files ?p1 \<subseteq>\<^sub>m files p" using r(3) by simp
  with ih show ?case unfolding step q1 q
    by (auto intro: map_le_trans)
qed

lemma to_remove_bounds: "0 \<le> current p \<Longrightarrow> 0 \<le> to_remove p \<and> to_remove p \<le> current p"
  by (simp add: to_remove_def)

lemma remove_songs_frame [simp]:
  "songdir (snd (Playlist_remove_songs p)) = songdir p"
  "maxsize (snd (Playlist_remove_songs p)) = maxsize p"
  "writes (snd (Playlist_remove_songs p)) = writes p"
  "allocated (snd (Playlist_remove_songs p)) = allocated p"
proof -
  obtain r p' where e: "popleft_loop (nat (to_remove p)) p = (r, p')" by (cases "popleft_loop (nat (to_remove p)) p")
  have f: "songdir p' = songdir p \<and> maxsize p' = maxsize p \<and> writes p' = writes p \<and> allocated p' = allocated p"
    using popleft_loop_frame [of "nat (to_remove p)" p] e by simp
  show "songdir (snd (Playlist_remove_songs p)) = songdir p"
    "maxsize (snd (Playlist_remove_songs p)) = maxsize p"
    "writes (snd (Playlist_remove_songs p)) = writes p"
    "allocated (snd (Playlist_remove_songs p)) = allocated p"
    using f by (cases r; simp add: Playlist_remove_songs_def e)+
qed

lemma remove_songs_ok:
  assumes ok: "store_ok (queue p) p" and c0: "0 \<le> current p"
    and c1: "current p \<le> int (length (queue p))"
  shows "fst (Playlist_remove_songs p) = Inr ()"
    and "queue (snd (Playlist_remove_songs p)) = drop (nat (to_remove p)) (queue p)"
    and "current (snd (Playlist_remove_songs p)) = current p - to_remove p"
    and "store_ok (queue (snd (Playlist_remove_songs p))) (snd (Playlist_remove_songs p))"
    and "files (snd (Playlist_remove_songs p)) \<subseteq>\<^sub>m files p"
proof -
  let ?k = "nat (to_remove p)"
  have k: "?k \<le> length (queue p)" using to_remove_bounds [OF c0] c1 by linarith
  obtain r p' where e: "popleft_loop ?k p = (r, p')" by (cases "popleft_loop ?k p")
  from popleft_loop_ok [OF ok k] e
  have r: "r = Inr ()" and q: "queue p' = drop ?k (queue p)"
    and ok': "store_ok (drop ?k (queue p)) p'" and fl: "files p' \<subseteq>\<^sub>m files p"
    by simp_all
  have cur: "current p' = current p" using popleft_loop_frame [of ?k p] e by simp
  have res: "Playlist_remove_songs p = (Inr (), p'\<lparr>current := current p' - to_remove p\<rparr>)"
    by (simp add: Playlist_remove_songs_def e r)
  show "fst (Playlist_remove_songs p) = Inr ()" by (simp add: res)
  show "queue (snd (Playlist_remove_songs p)) = drop ?k (queue p)" by (simp add: res q)
  show "current (snd (Playlist_remove_songs p)) = current p - to_remove p" by (simp add: res cur)
  show "store_ok (queue (snd (Playlist_remove_songs p))) (snd (Playlist_remove_songs p))"
    using ok' by (simp add: res q store_ok_def)
  show "files (snd (Playlist_remove_songs p)) \<subseteq>\<^sub>m files p" using fl by (simp add: res)
qed

lemma remove_songs_inv:
  assumes "Playlist_inv p"
  shows "Playlist_inv (snd (Playlist_remove_songs p))"
proof -
  from assms have ok: "store_ok (queue p) p" and c: "cursor_ok p" by (simp_all add: Playlist_inv_def)
  from c have c0: "0 \<le> current p" and c1: "current p \<le> int (length (queue p))"
    by (auto simp: cursor_ok_def split: if_splits)
  note r = remove_songs_ok [OF ok c0 c1]
  note b = to_remove_bounds [OF c0]
  have "cursor_ok (snd (Playlist_remove_songs p))"
    using c b unfolding cursor_ok_def r(2) r(3)
    by (auto split: if_splits)
  with r(4) show ?thesis by (simp add: Playlist_inv_def)
qed

section \<open>Every method keeps the invariant\<close>

lemma store_ok_upd [simp]:
  "store_ok q (p\<lparr>queue := x\<rparr>) = store_ok q p"
  "store_ok q (p\<lparr>current := c\<rparr>) = store_ok q p"
  "store_ok q (p\<lparr>allocated := a\<rparr>) = store_ok q p"
  by (simp_all add: store_ok_def)

lemma init_inv: "Playlist_inv (Playlist_init dir n old)"
  by (simp add: Playlist_inv_def Playlist_init_def Playlist_clear_all_songs_def store_ok_def cursor_ok_def)

lemma clear_inv: "Playlist_inv (Playlist_clear p)"
  by (simp add: Playlist_inv_def Playlist_clear_def Playlist_clear_all_songs_def store_ok_def cursor_ok_def)

lemma prev_inv: "Playlist_inv p \<Longrightarrow> Playlist_inv (snd (Playlist_prev p))"
  by (auto simp: Playlist_inv_def Playlist_prev_def Let_def cursor_ok_def split: if_splits)

lemma next_inv:
  assumes "Playlist_inv p"
  shows "Playlist_inv (snd (Playlist_next p))"
proof (cases "current p + 1 > int (length (queue p)) - 1")
  case True
  then show ?thesis using assms by (simp add: Playlist_next_def)
next
  case False
  then have "Playlist_inv (p\<lparr>current := current p + 1\<rparr>)"
    using assms by (auto simp: Playlist_inv_def cursor_ok_def split: if_splits)
  from remove_songs_inv [OF this] False show ?thesis
    by (simp add: Playlist_next_def Let_def)
qed

lemma enqueue_eq: "Playlist_enqueue sha256 ttl data p = Playlist_remove_songs (enq_pre sha256 ttl data p)"
  by (simp add: Playlist_enqueue_def enq_pre_def Let_def)

lemma enq_pre_fields:
  "queue (enq_pre sha256 ttl data p) =
     queue p @ [\<lparr>ident = allocated p, title = ttl,
                 path = path_join (songdir p) (Playlist_hash sha256 data),
                 hash = Playlist_hash sha256 data\<rparr>]"
  "songdir (enq_pre sha256 ttl data p) = songdir p"
  "maxsize (enq_pre sha256 ttl data p) = maxsize p"
  "current (enq_pre sha256 ttl data p) = current p"
  "allocated (enq_pre sha256 ttl data p) = Suc (allocated p)"
  "refcount (enq_pre sha256 ttl data p) =
     (refcount p)(Playlist_hash sha256 data \<mapsto>
        (case refcount p (Playlist_hash sha256 data) of Some c \<Rightarrow> c + 1 | None \<Rightarrow> 1))"
  "files (enq_pre sha256 ttl data p) =
     (case refcount p (Playlist_hash sha256 data) of
        Some c \<Rightarrow> files p
      | None \<Rightarrow> (files p)(path_join (songdir p) (Playlist_hash sha256 data) \<mapsto> data))"
  "writes (enq_pre sha256 ttl data p) =
     (case refcount p (Playlist_hash sha256 data) of
        Some c \<Rightarrow> writes p
      | None \<Rightarrow> writes p @ [path_join (songdir p) (Playlist_hash sha256 data)])"
  by (simp_all add: enq_pre_def Playlist_save_def Let_def split: option.splits)

lemma enq_pre_inv:
  assumes "Playlist_inv p"
  shows "Playlist_inv (enq_pre sha256 ttl data p)"
proof -
  let ?h = "Playlist_hash sha256 data"
  let ?p = "enq_pre sha256 ttl data p"
  from assms have ok: "store_ok (queue p) p" and c: "cursor_ok p" by (simp_all add: Playlist_inv_def)
  have ns: "CHR ''/'' \<notin> set ?h" by (simp add: Playlist_hash_def hexdigest_no_slash)
  have 1: "\<forall>h. refcount ?p h = (if slots (queue ?p) h = 0 then None else Some (int (slots (queue ?p) h)))"
    using ok by (auto simp: enq_pre_fields store_ok_def split: option.splits)
  have 2: "\<forall>f. (files ?p f \<noteq> None) = (\<exists>h. refcount ?p h \<noteq> None \<and> f = path_join (songdir ?p) h)"
  proof
    fix f
    from ok have F: "(files p f \<noteq> None) = (\<exists>h. refcount p h \<noteq> None \<and> f = path_join (songdir p) h)"
      by (simp add: store_ok_def)
    show "(files ?p f \<noteq> None) = (\<exists>h. refcount ?p h \<noteq> None \<and> f = path_join (songdir ?p) h)"
    proof (cases "refcount p ?h")
      case None
      have rc: "\<And>h. (refcount ?p h \<noteq> None) = (h = ?h \<or> refcount p h \<noteq> None)"
        by (simp add: enq_pre_fields)
      have fl: "(files ?p f \<noteq> None) = (f = path_join (songdir p) ?h \<or> files p f \<noteq> None)"
        by (simp add: enq_pre_fields None)
      show ?thesis unfolding rc fl F by (auto simp: enq_pre_fields)
    next
      case (Some c)
      have rc: "\<And>h. (refcount ?p h \<noteq> None) = (refcount p h \<noteq> None)"
        using Some by (simp add: enq_pre_fields)
      have fl: "(files ?p f \<noteq> None) = (files p f \<noteq> None)"
        by (simp add: enq_pre_fields Some)
      show ?thesis unfolding rc fl F by (simp add: enq_pre_fields)
    qed
  qed
  have 3: "\<forall>s\<in>set (queue ?p). path s = path_join (songdir ?p) (hash s) \<and> CHR ''/'' \<notin> set (hash s)"
    using ok ns by (auto simp: enq_pre_fields store_ok_def)
  have 4: "cursor_ok ?p"
    using c by (auto simp: cursor_ok_def enq_pre_fields split: if_splits)
  from 1 2 3 4 show ?thesis unfolding Playlist_inv_def store_ok_def by blast
qed

lemma enqueue_inv: "Playlist_inv p \<Longrightarrow> Playlist_inv (snd (Playlist_enqueue sha256 ttl data p))"
  unfolding enqueue_eq by (rule remove_songs_inv) (rule enq_pre_inv)

lemma deque_index_Inr:
  "deque_index q i = Inr j \<Longrightarrow> j < length q \<and> int j = (if i < 0 then i + int (length q) else i)"
  by (auto simp: deque_index_def Let_def split: if_splits)

lemma deque_index_ok:
  "- int (length q) \<le> i \<Longrightarrow> i < int (length q) \<Longrightarrow>
   deque_index q i = Inr (nat (if i < 0 then i + int (length q) else i))"
  by (auto simp: deque_index_def Let_def)

text \<open>What remove does once the index has been resolved to the position j.\<close>

lemma remove_at:
  assumes ok: "store_ok (queue p) p" and le: "\<not> index > int (length (queue p)) - 1"
    and j: "deque_index (queue p) index = Inr j"
  shows "fst (Playlist_remove index p) = Inr ()"
    and "queue (snd (Playlist_remove index p)) = take j (queue p) @ drop (Suc j) (queue p)"
    and "current (snd (Playlist_remove index p)) =
           max (min (if index < current p then current p - 1 else current p)
                    (int (length (queue p)) - 2)) 0"
    and "snd (Playlist_remove index p) =
           (snd (Playlist_remove_refcount (queue p ! j) p))
             \<lparr>queue := take j (queue p) @ drop (Suc j) (queue p),
              current := max (min (if index < current p then current p - 1 else current p)
                    (int (length (queue p)) - 2)) 0\<rparr>"
    and "store_ok (take j (queue p) @ drop (Suc j) (queue p)) (snd (Playlist_remove index p))"
proof -
  from deque_index_Inr [OF j] have jl: "j < length (queue p)" by simp
  let ?s = "queue p ! j"
  let ?q = "take j (queue p) @ drop (Suc j) (queue p)"
  have split: "queue p = take j (queue p) @ ?s # drop (Suc j) (queue p)"
    using jl by (rule id_take_nth_drop)
  have ok': "store_ok (take j (queue p) @ ?s # drop (Suc j) (queue p)) p"
    using ok split by simp
  note r = remove_refcount_ok [OF ok']
  define p1 where "p1 = snd (Playlist_remove_refcount ?s p)"
  have e: "Playlist_remove_refcount ?s p = (Inr (), p1)"
    using r(1) by (simp add: p1_def prod_eq_iff)
  have fr: "queue p1 = queue p" "current p1 = current p"
    unfolding p1_def by simp_all
  have len: "int (length ?q) - 1 = int (length (queue p)) - 2"
    using jl by auto
  have len2: "int (min (length (queue p)) j) + int (length (queue p) - Suc j) - 1 = int (length (queue p)) - 2"
    using jl by simp
  have p1: "snd (Playlist_remove_refcount ?s p) = p1" by (simp add: p1_def)
  have unf: "Playlist_remove index p =
     (let p2 = p1\<lparr>queue := take j (queue p1) @ drop (Suc j) (queue p1)\<rparr>;
          p3 = (if index < current p2 then p2\<lparr>current := current p2 - 1\<rparr> else p2)
      in (Inr (), p3\<lparr>current := max (min (current p3) (int (length (queue p3)) - 1)) 0\<rparr>))"
    by (simp only: Playlist_remove_def if_not_P [OF le] j e sum.case prod.case)
  show 4: "snd (Playlist_remove index p) =
           (snd (Playlist_remove_refcount (queue p ! j) p))
             \<lparr>queue := ?q,
              current := max (min (if index < current p then current p - 1 else current p)
                    (int (length (queue p)) - 2)) 0\<rparr>"
    unfolding unf p1 by (simp add: Let_def fr len2)
  show "fst (Playlist_remove index p) = Inr ()"
    unfolding unf Let_def by (simp only: fst_conv)
  show "queue (snd (Playlist_remove index p)) = ?q"
    unfolding 4 by simp
  show "current (snd (Playlist_remove index p)) =
           max (min (if index < current p then current p - 1 else current p)
                    (int (length (queue p)) - 2)) 0"
    unfolding 4 by simp
  show "store_ok ?q (snd (Playlist_remove index p))"
    unfolding 4 using r(2) by simp
qed

lemma remove_unchanged:
  "index > int (length (queue p)) - 1 \<or> (\<exists>e. deque_index (queue p) index = Inl e) \<Longrightarrow>
   snd (Playlist_remove index p) = p"
  by (auto simp: Playlist_remove_def)

lemma remove_inv:
  assumes "Playlist_inv p"
  shows "Playlist_inv (snd (Playlist_remove index p))"
proof (cases "index > int (length (queue p)) - 1 \<or> (\<exists>e. deque_index (queue p) index = Inl e)")
  case True
  from remove_unchanged [OF this] assms show ?thesis by simp
next
  case False
  then have le: "\<not> index > int (length (queue p)) - 1" by simp
  from False obtain j where j: "deque_index (queue p) index = Inr j"
    by (cases "deque_index (queue p) index") auto
  from assms have ok: "store_ok (queue p) p" by (simp add: Playlist_inv_def)
  note r = remove_at [OF ok le j]
  from deque_index_Inr [OF j] have jl: "j < length (queue p)" by simp
  have len: "int (length (take j (queue p) @ drop (Suc j) (queue p))) = int (length (queue p)) - 1"
    using jl by auto
  have e: "(take j (queue p) @ drop (Suc j) (queue p) = []) = (length (queue p) = 1)"
  proof -
    have "length (take j (queue p) @ drop (Suc j) (queue p)) = length (queue p) - 1"
      using jl by auto
    moreover have "(take j (queue p) @ drop (Suc j) (queue p) = []) =
        (length (take j (queue p) @ drop (Suc j) (queue p)) = 0)"
      by (simp only: length_0_conv)
    ultimately show ?thesis using jl by linarith
  qed
  have "cursor_ok (snd (Playlist_remove index p))"
    unfolding cursor_ok_def r(2) r(3) len e using jl by auto
  moreover have "store_ok (queue (snd (Playlist_remove index p))) (snd (Playlist_remove index p))"
    using r(5) r(2) by simp
  ultimately show ?thesis by (simp add: Playlist_inv_def)
qed

lemma apply_inv: "Playlist_inv p \<Longrightarrow> Playlist_inv (Playlist_apply sha256 op p)"
  by (cases op) (simp_all add: enqueue_inv remove_inv next_inv prev_inv clear_inv)

lemma run_inv: "Playlist_inv p \<Longrightarrow> Playlist_inv (Playlist_run sha256 ops p)"
  unfolding Playlist_run_def
  by (induction ops arbitrary: p) (simp_all add: apply_inv)

lemma reachable_inv: "Playlist_inv (Playlist_run sha256 ops (Playlist_init dir n old))"
  by (rule run_inv) (rule init_inv)

lemma slots_take_drop: "slots q h = slots (take k q) h + slots (drop k q) h"
  by (metis append_take_drop_id slots_append)

lemma evicted_store:
  assumes ok: "store_ok q p" and ok': "store_ok (drop k q) p'"
    and sd: "songdir p' = songdir p" and fl: "files p' \<subseteq>\<^sub>m files p"
  shows "refcount p' h =
           (case refcount p h of
              None \<Rightarrow> None
            | Some c \<Rightarrow> if c - int (slots (take k q) h) = 0 then None
                        else Some (c - int (slots (take k q) h)))"
    and "files p' f =
           (if \<exists>s\<in>set (take k q). f = path s \<and> refcount p' (hash s) = None then None
            else files p f)"
proof -
  have A: "\<And>h. refcount p h = (if slots q h = 0 then None else Some (int (slots q h)))"
    using ok by (simp add: store_ok_def)
  have B: "\<And>h. refcount p' h = (if slots (drop k q) h = 0 then None else Some (int (slots (drop k q) h)))"
    using ok' by (simp add: store_ok_def)
  show "refcount p' h =
           (case refcount p h of
              None \<Rightarrow> None
            | Some c \<Rightarrow> if c - int (slots (take k q) h) = 0 then None
                        else Some (c - int (slots (take k q) h)))"
    unfolding A B using slots_take_drop [of q h k] by auto
  have FA: "\<And>f. (files p f \<noteq> None) = (\<exists>h. refcount p h \<noteq> None \<and> f = path_join (songdir p) h)"
    using ok by (simp add: store_ok_def)
  have FB: "\<And>f. (files p' f \<noteq> None) = (\<exists>h. refcount p' h \<noteq> None \<and> f = path_join (songdir p) h)"
    using ok' sd by (simp add: store_ok_def)
  have P: "\<And>s. s \<in> set q \<Longrightarrow> path s = path_join (songdir p) (hash s) \<and> CHR ''/'' \<notin> set (hash s)"
    using ok by (simp add: store_ok_def)
  show "files p' f =
           (if \<exists>s\<in>set (take k q). f = path s \<and> refcount p' (hash s) = None then None
            else files p f)"
  proof (cases "\<exists>s\<in>set (take k q). f = path s \<and> refcount p' (hash s) = None")
    case True
    then obtain s where s: "s \<in> set (take k q)" "f = path s" "refcount p' (hash s) = None" by blast
    from s(1) have sq: "s \<in> set q" by (rule in_set_takeD)
    have "files p' f = None"
    proof (rule ccontr)
      assume "files p' f \<noteq> None"
      then obtain h where h: "refcount p' h \<noteq> None" "f = path_join (songdir p) h"
        unfolding FB by blast
      from store_ok_key_no_slash [OF ok' h(1)] P [OF sq] h(2) s(2)
      have "h = hash s" using path_join_inj by metis
      with h(1) s(3) show False by simp
    qed
    then show ?thesis unfolding if_P [OF True] .
  next
    case False
    have "files p' f = files p f"
    proof (cases "files p f")
      case None
      then show ?thesis using fl by (metis domIff map_le_def)
    next
      case (Some x)
      then obtain h where h: "refcount p h \<noteq> None" "f = path_join (songdir p) h"
        using FA [of f] by auto
      have "refcount p' h \<noteq> None"
      proof
        assume n: "refcount p' h = None"
        then have "slots (drop k q) h = 0" unfolding B by (simp split: if_splits)
        moreover from h(1) have "slots q h \<noteq> 0" unfolding A by (simp split: if_splits)
        ultimately have "slots (take k q) h \<noteq> 0" using slots_take_drop [of q h k] by simp
        then obtain s where s: "s \<in> set (take k q)" "hash s = h" using slots_pos_mem by blast
        from s(1) have "s \<in> set q" by (rule in_set_takeD)
        from P [OF this] s(2) h(2) have "f = path s" by simp
        with s n False show False by blast
      qed
      then have "files p' f \<noteq> None" unfolding FB using h(2) by blast
      then obtain y where "files p' f = Some y" by auto
      then show ?thesis using fl by (metis domI map_le_def)
    qed
    then show ?thesis unfolding if_not_P [OF False] .
  qed
qed

lemma remove_songs_current0: "current p = 0 \<Longrightarrow> Playlist_remove_songs p = (Inr (), p)"
  by (simp add: Playlist_remove_songs_def to_remove_def)

lemma ex_evict_inv: "Playlist_inv ex_evict"
proof -
  have c: "cursor_ok ex_evict"
    by (simp add: cursor_ok_def ex_evict_def)
  have s1: "\<forall>h. refcount ex_evict h =
      (if slots (queue ex_evict) h = 0 then None else Some (int (slots (queue ex_evict) h)))"
    by (simp add: ex_evict_def slots_def)
  have r: "\<And>h. (refcount ex_evict h \<noteq> None) = (h = ''aa'' \<or> h = ''bb'')"
    by (simp add: ex_evict_def)
  have f: "\<And>f. (files ex_evict f \<noteq> None) = (f = ''/s/aa'' \<or> f = ''/s/bb'')"
    by (simp add: ex_evict_def)
  have j: "path_join (songdir ex_evict) ''aa'' = ''/s/aa''"
    "path_join (songdir ex_evict) ''bb'' = ''/s/bb''"
    by (simp_all add: ex_evict_def path_join_def)
  have s2: "\<forall>f. (files ex_evict f \<noteq> None) =
      (\<exists>h. refcount ex_evict h \<noteq> None \<and> f = path_join (songdir ex_evict) h)"
    unfolding r f by (simp add: conj_disj_distribR ex_disj_distrib j)
  have s3: "\<forall>s\<in>set (queue ex_evict).
      path s = path_join (songdir ex_evict) (hash s) \<and> CHR ''/'' \<notin> set (hash s)"
    by (simp add: ex_evict_def path_join_def)
  show ?thesis unfolding Playlist_inv_def store_ok_def by (intro conjI c s1 s2 s3)
qed

section \<open>C1: the eviction routine\<close>

text \<open>
  Claim C1. In every state that satisfies the playlist invariant (which every state
  reached through the methods of the playlist does, also the states in which enqueue
  and next call the routine), the eviction routine returns normally, removes exactly
  \<open>min(current, max(0, len(queue) - capacity))\<close> songs from the front of the queue
  and lowers the cursor by the same number. Each removed slot is released: the reference
  count of a hash goes down by the number of removed slots that held it, the entry
  disappears when the count reaches zero, and the blob is deleted exactly then. When
  the cursor is 0 the routine changes nothing at all, whatever the length of the queue.
\<close>

theorem eviction_removes_played_prefix:
  "(Playlist_inv p \<longrightarrow>
      (let k = min (current p) (max 0 (int (length (queue p)) - maxsize p));
           p' = snd (Playlist_remove_songs p)
       in fst (Playlist_remove_songs p) = Inr () \<and>
          queue p' = drop (nat k) (queue p) \<and>
          current p' = current p - k \<and>
          (\<forall>h. refcount p' h =
             (case refcount p h of
                None \<Rightarrow> None
              | Some c \<Rightarrow> if c - int (slots (take (nat k) (queue p)) h) = 0 then None
                          else Some (c - int (slots (take (nat k) (queue p)) h)))) \<and>
          (\<forall>f. files p' f =
             (if \<exists>s\<in>set (take (nat k) (queue p)). f = path s \<and> refcount p' (hash s) = None
              then None else files p f)))) \<and>
   (current p = 0 \<longrightarrow> Playlist_remove_songs p = (Inr (), p))"
proof (intro conjI impI)
  assume inv: "Playlist_inv p"
  then have ok: "store_ok (queue p) p" and c: "cursor_ok p" by (simp_all add: Playlist_inv_def)
  from c have c0: "0 \<le> current p" and c1: "current p \<le> int (length (queue p))"
    by (auto simp: cursor_ok_def split: if_splits)
  note r = remove_songs_ok [OF ok c0 c1]
  have ok': "store_ok (drop (nat (to_remove p)) (queue p)) (snd (Playlist_remove_songs p))"
    using r(4) unfolding r(2) .
  note e = evicted_store [OF ok ok' remove_songs_frame(1) r(5)]
  show "let k = min (current p) (max 0 (int (length (queue p)) - maxsize p));
           p' = snd (Playlist_remove_songs p)
       in fst (Playlist_remove_songs p) = Inr () \<and>
          queue p' = drop (nat k) (queue p) \<and>
          current p' = current p - k \<and>
          (\<forall>h. refcount p' h =
             (case refcount p h of
                None \<Rightarrow> None
              | Some c \<Rightarrow> if c - int (slots (take (nat k) (queue p)) h) = 0 then None
                          else Some (c - int (slots (take (nat k) (queue p)) h)))) \<and>
          (\<forall>f. files p' f =
             (if \<exists>s\<in>set (take (nat k) (queue p)). f = path s \<and> refcount p' (hash s) = None
              then None else files p f))"
    unfolding Let_def to_remove_def [symmetric]
    using r(1) r(2) r(3) e by blast
next
  assume "current p = 0"
  then show "Playlist_remove_songs p = (Inr (), p)" by (rule remove_songs_current0)
qed

theorem eviction_removes_played_prefix_witness:
  "Playlist_inv ex_evict \<and>
   fst (Playlist_remove_songs ex_evict) = Inr () \<and>
   queue (snd (Playlist_remove_songs ex_evict)) =
     [\<lparr>ident = 1, title = ''B'', path = ''/s/bb'', hash = ''bb''\<rparr>] \<and>
   current (snd (Playlist_remove_songs ex_evict)) = 0 \<and>
   refcount (snd (Playlist_remove_songs ex_evict)) ''aa'' = None \<and>
   refcount (snd (Playlist_remove_songs ex_evict)) ''bb'' = Some 1 \<and>
   files (snd (Playlist_remove_songs ex_evict)) ''/s/aa'' = None \<and>
   files (snd (Playlist_remove_songs ex_evict)) ''/s/bb'' = Some ''y''"
proof -
  note inv = ex_evict_inv
  have k: "min (current ex_evict) (max 0 (int (length (queue ex_evict)) - maxsize ex_evict)) = 1"
    by (simp add: ex_evict_def)
  have n1: "nat 1 = 1" by simp
  from eviction_removes_played_prefix [of ex_evict] inv
  have t: "fst (Playlist_remove_songs ex_evict) = Inr ()"
    "queue (snd (Playlist_remove_songs ex_evict)) = drop 1 (queue ex_evict)"
    "current (snd (Playlist_remove_songs ex_evict)) = current ex_evict - 1"
    "\<And>h. refcount (snd (Playlist_remove_songs ex_evict)) h =
       (case refcount ex_evict h of
          None \<Rightarrow> None
        | Some c \<Rightarrow> if c - int (slots (take 1 (queue ex_evict)) h) = 0 then None
                    else Some (c - int (slots (take 1 (queue ex_evict)) h)))"
    "\<And>f. files (snd (Playlist_remove_songs ex_evict)) f =
       (if \<exists>s\<in>set (take 1 (queue ex_evict)). f = path s \<and>
             refcount (snd (Playlist_remove_songs ex_evict)) (hash s) = None
        then None else files ex_evict f)"
    unfolding Let_def k n1 by blast+
  have q: "drop 1 (queue ex_evict) = [\<lparr>ident = 1, title = ''B'', path = ''/s/bb'', hash = ''bb''\<rparr>]"
    by (simp add: ex_evict_def)
  have cu: "current ex_evict - 1 = 0"
    by (simp add: ex_evict_def)
  have a: "refcount (snd (Playlist_remove_songs ex_evict)) ''aa'' = None"
    unfolding t(4) by (simp add: ex_evict_def slots_def)
  have b: "refcount (snd (Playlist_remove_songs ex_evict)) ''bb'' = Some 1"
    unfolding t(4) by (simp add: ex_evict_def slots_def)
  have tk: "take 1 (queue ex_evict) = [\<lparr>ident = 0, title = ''A'', path = ''/s/aa'', hash = ''aa''\<rparr>]"
    by (simp add: ex_evict_def)
  have ex: "\<exists>s\<in>set (take 1 (queue ex_evict)). ''/s/aa'' = path s \<and>
             refcount (snd (Playlist_remove_songs ex_evict)) (hash s) = None"
    unfolding tk using a by simp
  have c: "files (snd (Playlist_remove_songs ex_evict)) ''/s/aa'' = None"
    by (subst t(5)) (simp only: if_P [OF ex])
  have nex: "\<not> (\<exists>s\<in>set (take 1 (queue ex_evict)). ''/s/bb'' = path s \<and>
             refcount (snd (Playlist_remove_songs ex_evict)) (hash s) = None)"
    unfolding tk by simp
  have d: "files (snd (Playlist_remove_songs ex_evict)) ''/s/bb'' = Some ''y''"
    by (subst t(5)) (simp only: if_not_P [OF nex], simp add: ex_evict_def)
  show ?thesis unfolding t(2) t(3) q cu by (intro conjI inv t(1) a b c d refl)
qed

section \<open>C2: the cursor invariant\<close>

lemma eviction_keeps_suffix:
  assumes "Playlist_inv p"
  shows "drop (nat (current (snd (Playlist_remove_songs p)))) (queue (snd (Playlist_remove_songs p))) =
         drop (nat (current p)) (queue p)"
proof -
  from assms have ok: "store_ok (queue p) p" and c: "cursor_ok p" by (simp_all add: Playlist_inv_def)
  from c have c0: "0 \<le> current p" and c1: "current p \<le> int (length (queue p))"
    by (auto simp: cursor_ok_def split: if_splits)
  note r = remove_songs_ok [OF ok c0 c1]
  note b = to_remove_bounds [OF c0]
  have "nat (current p - to_remove p) + nat (to_remove p) = nat (current p)"
    using b by linarith
  then show ?thesis unfolding r(2) r(3) by (simp add: drop_drop)
qed

lemma next_step_inv:
  "Playlist_inv p \<Longrightarrow> \<not> current p + 1 > int (length (queue p)) - 1 \<Longrightarrow>
   Playlist_inv (p\<lparr>current := current p + 1\<rparr>)"
  by (auto simp: Playlist_inv_def cursor_ok_def split: if_splits)

lemma next_keeps_suffix:
  assumes "Playlist_inv p"
  shows "drop (nat (current (snd (Playlist_next p)))) (queue (snd (Playlist_next p))) =
         (if fst (Playlist_next p) = Inr () then drop (nat (current p + 1)) (queue p)
          else drop (nat (current p)) (queue p))"
proof (cases "current p + 1 > int (length (queue p)) - 1")
  case True
  then show ?thesis by (simp add: Playlist_next_def)
next
  case False
  let ?p = "p\<lparr>current := current p + 1\<rparr>"
  have inv: "Playlist_inv ?p" using assms False by (rule next_step_inv)
  from inv have ok: "store_ok (queue ?p) ?p" and c: "cursor_ok ?p" by (simp_all add: Playlist_inv_def)
  from c have c0: "0 \<le> current ?p" and c1: "current ?p \<le> int (length (queue ?p))"
    by (auto simp: cursor_ok_def split: if_splits)
  have e: "Playlist_next p = Playlist_remove_songs ?p"
    using False by (simp add: Playlist_next_def Let_def)
  show ?thesis unfolding e using eviction_keeps_suffix [OF inv] remove_songs_ok(1) [OF ok c0 c1]
    by simp
qed

lemma enqueue_keeps_suffix:
  assumes "Playlist_inv p"
  shows "drop (nat (current (snd (Playlist_enqueue sha256 ttl data p))))
              (queue (snd (Playlist_enqueue sha256 ttl data p))) =
         drop (nat (current p)) (queue p) @
           [\<lparr>ident = allocated p, title = ttl,
             path = path_join (songdir p) (Playlist_hash sha256 data),
             hash = Playlist_hash sha256 data\<rparr>]"
proof -
  from assms have "cursor_ok p" by (simp add: Playlist_inv_def)
  then have "nat (current p) \<le> length (queue p)"
    by (auto simp: cursor_ok_def split: if_splits)
  then show ?thesis
    unfolding enqueue_eq eviction_keeps_suffix [OF enq_pre_inv [OF assms]]
    by (simp add: enq_pre_fields)
qed

lemma inv_cursor:
  assumes "Playlist_inv p"
  shows "(Playlist_currentindex p = None) = (queue p = [])"
    and "queue p \<noteq> [] \<Longrightarrow> Playlist_currentindex p = Some (current p) \<and> 0 \<le> current p \<and>
          current p \<le> int (length (queue p)) - 1"
  using assms by (auto simp: Playlist_inv_def cursor_ok_def Playlist_currentindex_def)

text \<open>
  Claim C2. After every sequence of enqueue, remove, next, prev and clear calls (failed
  calls included, with any arguments) on the freshly created playlist, the current
  index is reported as empty exactly when the queue is empty, and otherwise it is the
  cursor, which lies between 0 and the length of the queue minus one. Eviction never
  removes the song under the cursor nor any song after it: the part of the queue from
  the cursor on is the same before and after the eviction routine, so after a
  successful next it is what followed the old cursor, and after an enqueue it is the
  old part with the new song appended.
\<close>

theorem cursor_invariant:
  "(let p = Playlist_run sha256 ops (Playlist_init dir n old)
    in ((Playlist_currentindex p = None) = (queue p = [])) \<and>
       (queue p \<noteq> [] \<longrightarrow>
          Playlist_currentindex p = Some (current p) \<and> 0 \<le> current p \<and>
          current p \<le> int (length (queue p)) - 1) \<and>
       drop (nat (current (snd (Playlist_next p)))) (queue (snd (Playlist_next p))) =
         (if fst (Playlist_next p) = Inr () then drop (nat (current p + 1)) (queue p)
          else drop (nat (current p)) (queue p)) \<and>
       (\<forall>ttl data.
          drop (nat (current (snd (Playlist_enqueue sha256 ttl data p))))
               (queue (snd (Playlist_enqueue sha256 ttl data p))) =
          drop (nat (current p)) (queue p) @
            [\<lparr>ident = allocated p, title = ttl,
              path = path_join (songdir p) (Playlist_hash sha256 data),
              hash = Playlist_hash sha256 data\<rparr>])) \<and>
   (Playlist_inv q \<longrightarrow>
      drop (nat (current (snd (Playlist_remove_songs q)))) (queue (snd (Playlist_remove_songs q))) =
      drop (nat (current q)) (queue q))"
proof -
  have inv: "Playlist_inv (Playlist_run sha256 ops (Playlist_init dir n old))"
    by (rule reachable_inv)
  show ?thesis unfolding Let_def
    using inv_cursor [OF inv] next_keeps_suffix [OF inv] enqueue_keeps_suffix [OF inv]
      eviction_keeps_suffix [of q]
    by blast
qed

theorem cursor_invariant_witness:
  "queue ex_run \<noteq> [] \<and> Playlist_currentindex ex_run = Some 0 \<and>
   current ex_run \<le> int (length (queue ex_run)) - 1 \<and>
   Playlist_inv ex_evict \<and>
   drop (nat (current (snd (Playlist_remove_songs ex_evict))))
        (queue (snd (Playlist_remove_songs ex_evict))) =
     [\<lparr>ident = 1, title = ''B'', path = ''/s/bb'', hash = ''bb''\<rparr>]"
proof -
  have q: "queue ex_run \<noteq> []" by code_simp
  have c: "current ex_run = 0" by code_simp
  have d: "drop (nat (current ex_evict)) (queue ex_evict) =
      [\<lparr>ident = 1, title = ''B'', path = ''/s/bb'', hash = ''bb''\<rparr>]"
    by (simp add: ex_evict_def)
  note t = cursor_invariant [of ex_sha "[Enqueue ''A'' ''x'', Enqueue ''B'' ''x'', Next]"
      "''/s''" 1 Map.empty ex_evict, unfolded Let_def, folded ex_run_def]
  from t q have 1: "Playlist_currentindex ex_run = Some (current ex_run)"
    and 2: "current ex_run \<le> int (length (queue ex_run)) - 1" by blast+
  from t ex_evict_inv have 3: "drop (nat (current (snd (Playlist_remove_songs ex_evict))))
        (queue (snd (Playlist_remove_songs ex_evict))) = drop (nat (current ex_evict)) (queue ex_evict)"
    by blast
  show ?thesis using q 1 2 3 ex_evict_inv unfolding c d by (intro conjI)
qed

section \<open>C3: reference counts and blobs\<close>

lemma mem_slots: "s \<in> set q \<Longrightarrow> slots q (hash s) \<noteq> 0"
  by (induction q) auto

lemma enqueue_frame [simp]:
  "songdir (snd (Playlist_enqueue sha256 ttl data p)) = songdir p"
  "maxsize (snd (Playlist_enqueue sha256 ttl data p)) = maxsize p"
  "writes (snd (Playlist_enqueue sha256 ttl data p)) = writes (enq_pre sha256 ttl data p)"
  unfolding enqueue_eq by (simp_all add: enq_pre_fields)

lemma enqueue_slot_present:
  assumes "Playlist_inv p"
  shows "refcount (snd (Playlist_enqueue sha256 ttl data p)) (Playlist_hash sha256 data) \<noteq> None"
proof -
  let ?p = "snd (Playlist_enqueue sha256 ttl data p)"
  let ?s = "\<lparr>ident = allocated p, title = ttl,
             path = path_join (songdir p) (Playlist_hash sha256 data),
             hash = Playlist_hash sha256 data\<rparr>"
  have "?s \<in> set (drop (nat (current ?p)) (queue ?p))"
    unfolding enqueue_keeps_suffix [OF assms] by simp
  then have "?s \<in> set (queue ?p)" by (rule in_set_dropD)
  from mem_slots [OF this] have "slots (queue ?p) (Playlist_hash sha256 data) \<noteq> 0" by simp
  moreover have "store_ok (queue ?p) ?p"
    using enqueue_inv [OF assms] by (simp add: Playlist_inv_def)
  ultimately show ?thesis by (simp add: store_ok_def)
qed

lemma inv_file_exists:
  "Playlist_inv p \<Longrightarrow> refcount p h \<noteq> None \<Longrightarrow> files p (path_join (songdir p) h) \<noteq> None"
  unfolding Playlist_inv_def store_ok_def by blast

lemma enqueue_twice:
  assumes "Playlist_inv p"
  shows "writes (snd (Playlist_enqueue sha256 t2 data (snd (Playlist_enqueue sha256 t1 data p)))) =
           writes (snd (Playlist_enqueue sha256 t1 data p))"
    and "writes (snd (Playlist_enqueue sha256 t1 data p)) =
           (if refcount p (Playlist_hash sha256 data) = None
            then writes p @ [path_join (songdir p) (Playlist_hash sha256 data)] else writes p)"
    and "files (snd (Playlist_enqueue sha256 t2 data (snd (Playlist_enqueue sha256 t1 data p))))
           (path_join (songdir p) (Playlist_hash sha256 data)) \<noteq> None"
proof -
  let ?p1 = "snd (Playlist_enqueue sha256 t1 data p)"
  let ?p2 = "snd (Playlist_enqueue sha256 t2 data ?p1)"
  have inv1: "Playlist_inv ?p1" using assms by (rule enqueue_inv)
  have inv2: "Playlist_inv ?p2" using inv1 by (rule enqueue_inv)
  have "refcount ?p1 (Playlist_hash sha256 data) \<noteq> None"
    using assms by (rule enqueue_slot_present)
  then obtain c where c: "refcount ?p1 (Playlist_hash sha256 data) = Some c" by auto
  show "writes ?p2 = writes ?p1" by (simp add: enq_pre_fields c)
  show "writes ?p1 = (if refcount p (Playlist_hash sha256 data) = None
            then writes p @ [path_join (songdir p) (Playlist_hash sha256 data)] else writes p)"
    by (auto simp: enq_pre_fields split: option.splits)
  have "refcount ?p2 (Playlist_hash sha256 data) \<noteq> None"
    using inv1 by (rule enqueue_slot_present)
  from inv_file_exists [OF inv2 this]
  show "files ?p2 (path_join (songdir p) (Playlist_hash sha256 data)) \<noteq> None" by simp
qed

lemma remove_release:
  assumes inv: "Playlist_inv p" and i0: "0 \<le> i" and i1: "i < int (length (queue p))"
  shows "fst (Playlist_remove i p) = Inr ()"
    and "slots (queue p) (hash (queue p ! nat i)) = 1 \<Longrightarrow>
           files (snd (Playlist_remove i p)) (path (queue p ! nat i)) = None \<and>
           refcount (snd (Playlist_remove i p)) (hash (queue p ! nat i)) = None"
    and "slots (queue p) (hash (queue p ! nat i)) \<noteq> 1 \<Longrightarrow>
           files (snd (Playlist_remove i p)) (path (queue p ! nat i)) = files p (path (queue p ! nat i)) \<and>
           files p (path (queue p ! nat i)) \<noteq> None \<and>
           refcount (snd (Playlist_remove i p)) (hash (queue p ! nat i)) =
             Some (int (slots (queue p) (hash (queue p ! nat i))) - 1)"
proof -
  let ?s = "queue p ! nat i"
  from inv have ok: "store_ok (queue p) p" by (simp add: Playlist_inv_def)
  have le: "\<not> i > int (length (queue p)) - 1" using i1 by simp
  have j: "deque_index (queue p) i = Inr (nat i)"
    using deque_index_ok [of "queue p" i] i0 i1 by simp
  note r = remove_at [OF ok le j]
  have mem: "?s \<in> set (queue p)" using i0 i1 by simp
  from mem_slots [OF mem] have pos: "slots (queue p) (hash ?s) \<noteq> 0" .
  with ok have rc: "refcount p (hash ?s) = Some (int (slots (queue p) (hash ?s)))"
    by (simp add: store_ok_def)
  from ok mem have ps: "path ?s = path_join (songdir p) (hash ?s)" by (simp add: store_ok_def)
  have fe: "files p (path ?s) \<noteq> None"
    unfolding ps using inv rc by (intro inv_file_exists) simp_all
  show "fst (Playlist_remove i p) = Inr ()" by (rule r(1))
  show "files (snd (Playlist_remove i p)) (path ?s) = None \<and>
           refcount (snd (Playlist_remove i p)) (hash ?s) = None"
    if "slots (queue p) (hash ?s) = 1"
    unfolding r(4) using that rc fe by (auto simp: Playlist_remove_refcount_def)
  show "files (snd (Playlist_remove i p)) (path ?s) = files p (path ?s) \<and>
           files p (path ?s) \<noteq> None \<and>
           refcount (snd (Playlist_remove i p)) (hash ?s) = Some (int (slots (queue p) (hash ?s)) - 1)"
    if "slots (queue p) (hash ?s) \<noteq> 1"
    unfolding r(4) using that rc fe by (auto simp: Playlist_remove_refcount_def Let_def)
qed

text \<open>
  Claim C3. After every sequence of playlist calls, the reference count of a hash is
  the number of slots of the queue that hold it (a hash held by no slot has no entry),
  and the files of the song directory are exactly the blobs of the hashes that have an
  entry. Hence enqueueing the same bytes twice writes the blob at most once (once when
  the hash was unknown, and never on the second call) and the blob is on disk
  afterwards; removing a slot whose hash is held by another slot as well leaves the
  blob and lowers the count by one; removing the last slot of a hash deletes the blob
  and the entry in the same call.
\<close>

theorem refcount_invariant:
  "(let p = Playlist_run sha256 ops (Playlist_init dir n old)
    in (\<forall>h. refcount p h = (if slots (queue p) h = 0 then None else Some (int (slots (queue p) h)))) \<and>
       (\<forall>f. (files p f \<noteq> None) = (\<exists>h. refcount p h \<noteq> None \<and> f = path_join (songdir p) h)) \<and>
       (\<forall>t1 t2 data.
          (let h = Playlist_hash sha256 data;
               p1 = snd (Playlist_enqueue sha256 t1 data p);
               p2 = snd (Playlist_enqueue sha256 t2 data p1)
           in writes p1 = (if refcount p h = None then writes p @ [path_join (songdir p) h] else writes p) \<and>
              writes p2 = writes p1 \<and>
              files p2 (path_join (songdir p) h) \<noteq> None)) \<and>
       (\<forall>i. 0 \<le> i \<and> i < int (length (queue p)) \<longrightarrow>
          (let s = queue p ! nat i; p' = snd (Playlist_remove i p)
           in fst (Playlist_remove i p) = Inr () \<and>
              (slots (queue p) (hash s) = 1 \<longrightarrow>
                 files p' (path s) = None \<and> refcount p' (hash s) = None) \<and>
              (slots (queue p) (hash s) \<noteq> 1 \<longrightarrow>
                 files p' (path s) = files p (path s) \<and> files p (path s) \<noteq> None \<and>
                 refcount p' (hash s) = Some (int (slots (queue p) (hash s)) - 1)))))"
proof -
  define p where "p = Playlist_run sha256 ops (Playlist_init dir n old)"
  have inv: "Playlist_inv p" unfolding p_def by (rule reachable_inv)
  then have ok: "store_ok (queue p) p" by (simp add: Playlist_inv_def)
  have 1: "\<forall>h. refcount p h = (if slots (queue p) h = 0 then None else Some (int (slots (queue p) h)))"
    using ok unfolding store_ok_def by blast
  have 2: "\<forall>f. (files p f \<noteq> None) = (\<exists>h. refcount p h \<noteq> None \<and> f = path_join (songdir p) h)"
    using ok unfolding store_ok_def by blast
  have 3: "\<forall>t1 t2 data.
          (let h = Playlist_hash sha256 data;
               p1 = snd (Playlist_enqueue sha256 t1 data p);
               p2 = snd (Playlist_enqueue sha256 t2 data p1)
           in writes p1 = (if refcount p h = None then writes p @ [path_join (songdir p) h] else writes p) \<and>
              writes p2 = writes p1 \<and>
              files p2 (path_join (songdir p) h) \<noteq> None)"
    unfolding Let_def using enqueue_twice [OF inv] by blast
  have 4: "\<forall>i. 0 \<le> i \<and> i < int (length (queue p)) \<longrightarrow>
          (let s = queue p ! nat i; p' = snd (Playlist_remove i p)
           in fst (Playlist_remove i p) = Inr () \<and>
              (slots (queue p) (hash s) = 1 \<longrightarrow>
                 files p' (path s) = None \<and> refcount p' (hash s) = None) \<and>
              (slots (queue p) (hash s) \<noteq> 1 \<longrightarrow>
                 files p' (path s) = files p (path s) \<and> files p (path s) \<noteq> None \<and>
                 refcount p' (hash s) = Some (int (slots (queue p) (hash s)) - 1)))"
    unfolding Let_def using remove_release [OF inv] by blast
  show ?thesis unfolding p_def [symmetric] Let_def
    using 1 2 3 [unfolded Let_def] 4 [unfolded Let_def] by (intro conjI)
qed

theorem refcount_invariant_witness:
  "refcount ex_two ''01'' = Some 2 \<and>
   writes ex_two = [''/s/01''] \<and>
   files ex_two ''/s/01'' = Some ''x'' \<and>
   files (snd (Playlist_remove 0 ex_two)) ''/s/01'' = Some ''x'' \<and>
   refcount (snd (Playlist_remove 0 ex_two)) ''01'' = Some 1 \<and>
   files (snd (Playlist_remove 0 ex_one)) ''/s/01'' = None \<and>
   refcount (snd (Playlist_remove 0 ex_one)) ''01'' = None"
proof -
  note t2 = refcount_invariant [of ex_sha "[Enqueue ''A'' ''x'', Enqueue ''B'' ''x'']" "''/s''" 10 Map.empty,
      unfolded Let_def, folded ex_two_def]
  note t1 = refcount_invariant [of ex_sha "[Enqueue ''A'' ''x'', Enqueue ''B'' ''x'', Remove 0]" "''/s''" 10 Map.empty,
      unfolded Let_def, folded ex_one_def]
  have q2: "queue ex_two ! nat 0 = \<lparr>ident = 0, title = ''A'', path = ''/s/01'', hash = ''01''\<rparr>"
    by code_simp
  have q1: "queue ex_one ! nat 0 = \<lparr>ident = 1, title = ''B'', path = ''/s/01'', hash = ''01''\<rparr>"
    by code_simp
  have l2: "(0::int) \<le> 0 \<and> 0 < int (length (queue ex_two))" by code_simp
  have l1: "(0::int) \<le> 0 \<and> 0 < int (length (queue ex_one))" by code_simp
  have s2: "slots (queue ex_two) ''01'' = 2" by code_simp
  have s1: "slots (queue ex_one) ''01'' = 1" by code_simp
  have w: "writes ex_two = [''/s/01'']" by code_simp
  have f: "files ex_two ''/s/01'' = Some ''x''" by code_simp
  from t2 have a: "refcount ex_two ''01'' = Some 2"
    unfolding s2 by (simp add: s2)
  from t2 l2 have "slots (queue ex_two) (hash (queue ex_two ! nat 0)) \<noteq> 1 \<longrightarrow>
                 files (snd (Playlist_remove 0 ex_two)) (path (queue ex_two ! nat 0)) =
                   files ex_two (path (queue ex_two ! nat 0)) \<and>
                 refcount (snd (Playlist_remove 0 ex_two)) (hash (queue ex_two ! nat 0)) =
                   Some (int (slots (queue ex_two) (hash (queue ex_two ! nat 0))) - 1)"
    by blast
  then have b: "files (snd (Playlist_remove 0 ex_two)) ''/s/01'' = Some ''x'' \<and>
      refcount (snd (Playlist_remove 0 ex_two)) ''01'' = Some 1"
    unfolding q2 by (simp add: s2 f)
  from t1 l1 have "slots (queue ex_one) (hash (queue ex_one ! nat 0)) = 1 \<longrightarrow>
                 files (snd (Playlist_remove 0 ex_one)) (path (queue ex_one ! nat 0)) = None \<and>
                 refcount (snd (Playlist_remove 0 ex_one)) (hash (queue ex_one ! nat 0)) = None"
    by blast
  then have c: "files (snd (Playlist_remove 0 ex_one)) ''/s/01'' = None \<and>
      refcount (snd (Playlist_remove 0 ex_one)) ''01'' = None"
    unfolding q1 by (simp add: s1)
  show ?thesis using a w f b c by (intro conjI) simp_all
qed

section \<open>C9: negative indices in Playlist.remove\<close>

lemma remove_negative:
  assumes inv: "Playlist_inv p" and lo: "- int (length (queue p)) \<le> i" and hi: "i \<le> - 1"
  shows "fst (Playlist_remove i p) = Inr ()"
    and "queue (snd (Playlist_remove i p)) =
           take (nat (int (length (queue p)) + i)) (queue p) @
           drop (Suc (nat (int (length (queue p)) + i))) (queue p)"
    and "Playlist_inv (snd (Playlist_remove i p))"
    and "current (snd (Playlist_remove i p)) = max (current p - 1) 0"
    and "(current (snd (Playlist_remove i p)) =
          current (snd (Playlist_remove (int (length (queue p)) + i) p))) =
         (int (length (queue p)) + i < current p \<or> current p = 0 \<or>
          current p = int (length (queue p)) - 1)"
proof -
  let ?n = "int (length (queue p))"
  from inv have ok: "store_ok (queue p) p" and c: "cursor_ok p" by (simp_all add: Playlist_inv_def)
  from lo hi have ne: "queue p \<noteq> []" by auto
  with c have c0: "0 \<le> current p" and c1: "current p \<le> ?n - 1" by (simp_all add: cursor_ok_def)
  have le: "\<not> i > ?n - 1" using hi by simp
  have j: "deque_index (queue p) i = Inr (nat (?n + i))"
    using deque_index_ok [of "queue p" i] lo hi by (simp add: add.commute)
  note r = remove_at [OF ok le j]
  show "fst (Playlist_remove i p) = Inr ()" by (rule r(1))
  show "queue (snd (Playlist_remove i p)) =
           take (nat (?n + i)) (queue p) @ drop (Suc (nat (?n + i))) (queue p)" by (rule r(2))
  show "Playlist_inv (snd (Playlist_remove i p))" using inv by (rule remove_inv)
  show 4: "current (snd (Playlist_remove i p)) = max (current p - 1) 0"
    unfolding r(3) using hi c0 c1 by simp
  have le': "\<not> ?n + i > ?n - 1" using hi by simp
  have j': "deque_index (queue p) (?n + i) = Inr (nat (?n + i))"
    using deque_index_ok [of "queue p" "?n + i"] lo hi by simp
  note r' = remove_at [OF ok le' j']
  show "(current (snd (Playlist_remove i p)) = current (snd (Playlist_remove (?n + i) p))) =
         (?n + i < current p \<or> current p = 0 \<or> current p = ?n - 1)"
    unfolding 4 r'(3) using c0 c1 lo hi by (simp add: max_def min_def)
qed



text \<open>
  Claim C9, amended. For a playlist of length \<open>n\<close> that satisfies the invariant and an
  index \<open>i\<close> with \<open>-n \<le> i \<le> -1\<close>, \<^verbatim>\<open>Playlist.remove(i)\<close> does not raise: it removes
  the song at position \<open>n + i\<close> and releases its hash. The cursor is always decremented,
  because the test \<^verbatim>\<open>index < self._current\<close> is made with the negative index, and then
  clamped: it becomes \<open>max(current - 1, 0)\<close>. This is the cursor that the index \<open>n + i\<close>
  would give exactly when \<open>n + i < current\<close>, \<open>current = 0\<close> or \<open>current = n - 1\<close>, and not
  otherwise. The orchestrator rejects every negative index with a ValueError and leaves
  the state as it is.
\<close>

theorem remove_negative_index:
  "(Playlist_inv p \<and> - int (length (queue p)) \<le> i \<and> i \<le> - 1 \<longrightarrow>
      (let n = int (length (queue p)); j = nat (n + i); p' = snd (Playlist_remove i p)
       in fst (Playlist_remove i p) = Inr () \<and>
          queue p' = take j (queue p) @ drop (Suc j) (queue p) \<and>
          Playlist_inv p' \<and>
          current p' = max (current p - 1) 0 \<and>
          ((current p' = current (snd (Playlist_remove (n + i) p))) =
           (n + i < current p \<or> current p = 0 \<or> current p = n - 1)))) \<and>
   (i < 0 \<longrightarrow> MusicServer_remove i ms = (Inl (ValueError ''index must be non-negative''), ms))"
proof (intro conjI impI)
  assume "Playlist_inv p \<and> - int (length (queue p)) \<le> i \<and> i \<le> - 1"
  then have a: "Playlist_inv p" "- int (length (queue p)) \<le> i" "i \<le> - 1" by simp_all
  show "let n = int (length (queue p)); j = nat (n + i); p' = snd (Playlist_remove i p)
       in fst (Playlist_remove i p) = Inr () \<and>
          queue p' = take j (queue p) @ drop (Suc j) (queue p) \<and>
          Playlist_inv p' \<and>
          current p' = max (current p - 1) 0 \<and>
          ((current p' = current (snd (Playlist_remove (n + i) p))) =
           (n + i < current p \<or> current p = 0 \<or> current p = n - 1))"
    unfolding Let_def using remove_negative [OF a] by (intro conjI)
next
  assume "i < 0"
  then show "MusicServer_remove i ms = (Inl (ValueError ''index must be non-negative''), ms)"
    by (simp add: MusicServer_remove_def)
qed

text \<open>
  The claim as it was stated (the cursor is adjusted as if the index \<open>n + i\<close> had been
  given) fails for three songs with the cursor on the second one: removing index \<open>-1\<close>
  moves the cursor to 0, removing index 2 leaves it at 1.
\<close>

theorem remove_negative_index_counterexample:
  "fst (Playlist_remove (- 1) ex_three) = Inr () \<and>
   int (length (queue ex_three)) = 3 \<and> current ex_three = 1 \<and>
   current (snd (Playlist_remove (- 1) ex_three)) = 0 \<and>
   current (snd (Playlist_remove (int (length (queue ex_three)) + (- 1)) ex_three)) = 1"
  by code_simp

theorem remove_negative_index_witness:
  "Playlist_inv ex_three \<and> - int (length (queue ex_three)) \<le> - 1 \<and>
   fst (Playlist_remove (- 1) ex_three) = Inr () \<and>
   map title (queue (snd (Playlist_remove (- 1) ex_three))) = [''A'', ''B''] \<and>
   current (snd (Playlist_remove (- 1) ex_three)) = 0 \<and>
   current (snd (Playlist_remove (- 1) ex_three)) \<noteq>
     current (snd (Playlist_remove (int (length (queue ex_three)) + (- 1)) ex_three)) \<and>
   MusicServer_remove (- 1) (MusicServer_init None None Map.empty) =
     (Inl (ValueError ''index must be non-negative''), MusicServer_init None None Map.empty)"
proof -
  have inv: "Playlist_inv ex_three" unfolding ex_three_def by (rule reachable_inv)
  have n: "int (length (queue ex_three)) = 3" by code_simp
  have c: "current ex_three = 1" by code_simp
  have q: "map title (take (nat (3 + - 1)) (queue ex_three) @ drop (Suc (nat (3 + - 1))) (queue ex_three)) = [''A'', ''B'']"
    by code_simp
  have h: "Playlist_inv ex_three \<and> - int (length (queue ex_three)) \<le> - 1 \<and> (- 1 :: int) \<le> - 1"
    using inv n by simp
  note t = remove_negative_index [of ex_three "- 1" "MusicServer_init None None Map.empty", unfolded Let_def]
  from t h have 1: "fst (Playlist_remove (- 1) ex_three) = Inr ()"
    and 2: "queue (snd (Playlist_remove (- 1) ex_three)) =
       take (nat (int (length (queue ex_three)) + - 1)) (queue ex_three) @
       drop (Suc (nat (int (length (queue ex_three)) + - 1))) (queue ex_three)"
    and 3: "current (snd (Playlist_remove (- 1) ex_three)) = max (current ex_three - 1) 0"
    and 4: "(current (snd (Playlist_remove (- 1) ex_three)) =
           current (snd (Playlist_remove (int (length (queue ex_three)) + - 1) ex_three))) =
           (int (length (queue ex_three)) + - 1 < current ex_three \<or> current ex_three = 0 \<or>
            current ex_three = int (length (queue ex_three)) - 1)"
    by blast+
  from t have 5: "MusicServer_remove (- 1) (MusicServer_init None None Map.empty) =
     (Inl (ValueError ''index must be non-negative''), MusicServer_init None None Map.empty)"
    by simp
  have 6: "current (snd (Playlist_remove (- 1) ex_three)) \<noteq>
     current (snd (Playlist_remove (int (length (queue ex_three)) + (- 1)) ex_three))"
    using 4 unfolding n c by simp
  have 7: "map title (queue (snd (Playlist_remove (- 1) ex_three))) = [''A'', ''B'']"
    unfolding 2 n by (rule q)
  have 8: "current (snd (Playlist_remove (- 1) ex_three)) = 0"
    unfolding 3 c by simp
  show ?thesis using inv n 1 5 6 7 8 by (intro conjI) simp_all
qed

section \<open>C4: navigation at the ends of the queue\<close>

lemma requested_snoc [simp]: "requested (cs @ [Set_state s]) = Some s"
  by (induction cs) (simp_all split: option.splits)

lemma requested_snoc_uri [simp]: "requested (cs @ [Set_uri u, Set_state s]) = Some s"
  by (induction cs) (simp_all split: option.splits)

lemma next_boundary:
  "current (playlist ms) + 1 > int (length (queue (playlist ms))) - 1 \<Longrightarrow>
   MusicServer_next ms =
     (Inl (IndexError ''no more songs''), ms\<lparr>player := gst [Set_state READY] (player ms)\<rparr>)"
  by (simp add: MusicServer_next_def Playlist_next_def Player_stop_def Let_def)

lemma prev_boundary:
  "current (playlist ms) - 1 < 0 \<Longrightarrow>
   MusicServer_prev ms =
     (Inl (IndexError ''no more songs''), ms\<lparr>player := gst [Set_state READY] (player ms)\<rparr>)"
  by (simp add: MusicServer_prev_def Playlist_prev_def Player_stop_def Let_def)


text \<open>
  Claim C4, amended. When there is no next song (for \<^verbatim>\<open>next\<close>) or no previous song
  (for \<^verbatim>\<open>prev\<close>), the call of the orchestrator fails with IndexError "no more songs"
  and leaves the playlist (queue, cursor, reference counts, files) and the cached
  fields of the player as they were. The player has been stopped before the cursor is
  tried, though: exactly one \<^verbatim>\<open>set_state(READY)\<close> has been sent to the engine, so a
  track that was playing or paused ends up stopped.
\<close>

theorem boundary_navigation:
  "(current (playlist ms) + 1 > int (length (queue (playlist ms))) - 1 \<longrightarrow>
      MusicServer_next ms =
        (Inl (IndexError ''no more songs''), ms\<lparr>player := gst [Set_state READY] (player ms)\<rparr>) \<and>
      requested (pipeline (player (snd (MusicServer_next ms)))) = Some READY) \<and>
   (current (playlist ms) - 1 < 0 \<longrightarrow>
      MusicServer_prev ms =
        (Inl (IndexError ''no more songs''), ms\<lparr>player := gst [Set_state READY] (player ms)\<rparr>) \<and>
      requested (pipeline (player (snd (MusicServer_prev ms)))) = Some READY)"
proof (intro conjI impI)
  assume a: "current (playlist ms) + 1 > int (length (queue (playlist ms))) - 1"
  show n: "MusicServer_next ms =
        (Inl (IndexError ''no more songs''), ms\<lparr>player := gst [Set_state READY] (player ms)\<rparr>)"
    using a by (rule next_boundary)
  show "requested (pipeline (player (snd (MusicServer_next ms)))) = Some READY"
    unfolding n by (simp add: gst_def)
next
  assume a: "current (playlist ms) - 1 < 0"
  show v: "MusicServer_prev ms =
        (Inl (IndexError ''no more songs''), ms\<lparr>player := gst [Set_state READY] (player ms)\<rparr>)"
    using a by (rule prev_boundary)
  show "requested (pipeline (player (snd (MusicServer_prev ms)))) = Some READY"
    unfolding v by (simp add: gst_def)
qed

text \<open>
  The claim as it was stated (a failed call leaves the playback state as it was) fails
  on a server that plays its only song: \<^verbatim>\<open>next\<close> raises, but the engine has been
  asked to stop, and the state it reports next is \<open>stop\<close>.
\<close>

theorem boundary_navigation_counterexample:
  "queue (playlist ex_playing) \<noteq> [] \<and>
   current (playlist ex_playing) = int (length (queue (playlist ex_playing))) - 1 \<and>
   state (player ex_playing) = ''play'' \<and>
   requested (pipeline (player ex_playing)) = Some PLAYING \<and>
   fst (MusicServer_next ex_playing) = Inl (IndexError ''no more songs'') \<and>
   player (snd (MusicServer_next ex_playing)) \<noteq> player ex_playing \<and>
   requested (pipeline (player (snd (MusicServer_next ex_playing)))) = Some READY \<and>
   state (player (snd (Player_handle_message (STATE_CHANGED True PLAYING READY VOID_PENDING)
     (snd (MusicServer_next ex_playing))))) = ''stop''"
  by code_simp

theorem boundary_navigation_witness:
  "current (playlist ex_playing) + 1 > int (length (queue (playlist ex_playing))) - 1 \<and>
   current (playlist ex_playing) - 1 < 0 \<and>
   fst (MusicServer_next ex_playing) = Inl (IndexError ''no more songs'') \<and>
   fst (MusicServer_prev ex_playing) = Inl (IndexError ''no more songs'') \<and>
   playlist (snd (MusicServer_next ex_playing)) = playlist ex_playing \<and>
   playlist (snd (MusicServer_prev ex_playing)) = playlist ex_playing \<and>
   pipeline (player (snd (MusicServer_next ex_playing))) =
     [Set_uri ''/s/01'', Set_state PLAYING, Set_state READY]"
proof -
  have a: "current (playlist ex_playing) + 1 > int (length (queue (playlist ex_playing))) - 1"
    by code_simp
  have b: "current (playlist ex_playing) - 1 < 0" by code_simp
  have p: "pipeline (player ex_playing) = [Set_uri ''/s/01'', Set_state PLAYING]" by code_simp
  from boundary_navigation [of ex_playing] a b
  have n: "MusicServer_next ex_playing =
        (Inl (IndexError ''no more songs''), ex_playing\<lparr>player := gst [Set_state READY] (player ex_playing)\<rparr>)"
    and v: "MusicServer_prev ex_playing =
        (Inl (IndexError ''no more songs''), ex_playing\<lparr>player := gst [Set_state READY] (player ex_playing)\<rparr>)"
    by blast+
  show ?thesis using a b unfolding n v by (simp add: gst_def p)
qed

section \<open>C5: navigation resumes only a playing track\<close>

lemma current_of_inv:
  assumes "Playlist_inv p" and "queue p \<noteq> []"
  shows "Playlist_current p = Inr (Some (queue p ! nat (current p)))"
proof -
  from assms have "0 \<le> current p" "current p < int (length (queue p))"
    by (auto simp: Playlist_inv_def cursor_ok_def)
  then have "deque_index (queue p) (current p) = Inr (nat (current p))"
    using deque_index_ok [of "queue p" "current p"] by simp
  then show ?thesis using assms(2) by (simp add: Playlist_current_def)
qed

lemma next_success:
  assumes inv: "Playlist_inv p" and nb: "\<not> current p + 1 > int (length (queue p)) - 1"
  shows "fst (Playlist_next p) = Inr ()"
    and "Playlist_inv (snd (Playlist_next p))"
    and "Playlist_current (snd (Playlist_next p)) = Inr (Some (queue p ! nat (current p + 1)))"
proof -
  let ?p = "p\<lparr>current := current p + 1\<rparr>"
  let ?p' = "snd (Playlist_next p)"
  have inv1: "Playlist_inv ?p" using inv nb by (rule next_step_inv)
  from inv1 have ok: "store_ok (queue ?p) ?p" and c: "cursor_ok ?p" by (simp_all add: Playlist_inv_def)
  from c have c0: "0 \<le> current ?p" and c1: "current ?p \<le> int (length (queue ?p))"
    by (auto simp: cursor_ok_def split: if_splits)
  have e: "Playlist_next p = Playlist_remove_songs ?p"
    using nb by (simp add: Playlist_next_def Let_def)
  show 1: "fst (Playlist_next p) = Inr ()"
    unfolding e by (rule remove_songs_ok(1) [OF ok c0 c1])
  show 2: "Playlist_inv ?p'" using inv by (rule next_inv)
  from inv have "0 \<le> current p" by (auto simp: Playlist_inv_def cursor_ok_def split: if_splits)
  with nb have lt: "nat (current p + 1) < length (queue p)" by linarith
  have sfx: "drop (nat (current ?p')) (queue ?p') = drop (nat (current p + 1)) (queue p)"
    using next_keeps_suffix [OF inv] 1 by simp
  from lt have ne: "drop (nat (current p + 1)) (queue p) \<noteq> []" by simp
  with sfx have "drop (nat (current ?p')) (queue ?p') \<noteq> []" by simp
  then have lt': "nat (current ?p') < length (queue ?p')" by simp
  then have q: "queue ?p' \<noteq> []" by auto
  have "queue ?p' ! nat (current ?p') = hd (drop (nat (current ?p')) (queue ?p'))"
    using lt' by (simp add: hd_drop_conv_nth)
  also have "\<dots> = hd (drop (nat (current p + 1)) (queue p))" by (simp only: sfx)
  also have "\<dots> = queue p ! nat (current p + 1)" using lt by (simp add: hd_drop_conv_nth)
  finally show "Playlist_current ?p' = Inr (Some (queue p ! nat (current p + 1)))"
    using current_of_inv [OF 2 q] by simp
qed

lemma prev_success:
  assumes inv: "Playlist_inv p" and nb: "\<not> current p - 1 < 0"
  shows "Playlist_prev p = (Inr (), p\<lparr>current := current p - 1\<rparr>)"
    and "Playlist_current (snd (Playlist_prev p)) = Inr (Some (queue p ! nat (current p - 1)))"
proof -
  show e: "Playlist_prev p = (Inr (), p\<lparr>current := current p - 1\<rparr>)"
    using nb by (simp add: Playlist_prev_def Let_def)
  have inv': "Playlist_inv (snd (Playlist_prev p))" using inv by (rule prev_inv)
  from inv nb have "queue p \<noteq> []" by (auto simp: Playlist_inv_def cursor_ok_def)
  then have q: "queue (snd (Playlist_prev p)) \<noteq> []" by (simp add: e)
  from current_of_inv [OF inv' q]
  show "Playlist_current (snd (Playlist_prev p)) = Inr (Some (queue p ! nat (current p - 1)))"
    by (simp add: e)
qed

lemma play_some:
  "Player_play (Some x) pl =
     (Inr (), if differs (song pl) (Some x)
              then gst [Set_uri (path x), Set_state PLAYING] (pl\<lparr>song := Some x\<rparr>)
              else gst [Set_state PLAYING] pl)"
  by (simp add: Player_play_def gst_def Let_def)

lemma resume_some:
  "Playlist_current (playlist ms) = Inr (Some x) \<Longrightarrow>
   resume st ms =
     (Inr (), if st = ''play'' then ms\<lparr>player := snd (Player_play (Some x) (player ms))\<rparr> else ms)"
  by (simp add: resume_def play_some)

lemma server_next_success:
  assumes inv: "Playlist_inv (playlist ms)"
    and nb: "\<not> current (playlist ms) + 1 > int (length (queue (playlist ms))) - 1"
  shows "MusicServer_next ms =
     (Inr (),
      ms\<lparr>player :=
           (if state (player ms) = ''play''
            then snd (Player_play (Some (queue (playlist ms) ! nat (current (playlist ms) + 1)))
                        (Player_stop (player ms)))
            else Player_stop (player ms)),
         playlist := snd (Playlist_next (playlist ms))\<rparr>)"
proof -
  note n = next_success [OF inv nb]
  obtain p' where e: "Playlist_next (playlist ms) = (Inr (), p')"
    using n(1) by (cases "Playlist_next (playlist ms)") auto
  have c: "Playlist_current p' = Inr (Some (queue (playlist ms) ! nat (current (playlist ms) + 1)))"
    using n(3) e by simp
  show ?thesis
    unfolding MusicServer_next_def Let_def
    by (simp add: e resume_some [where x = "queue (playlist ms) ! nat (current (playlist ms) + 1)"] c)
qed

lemma server_prev_success:
  assumes inv: "Playlist_inv (playlist ms)"
    and nb: "\<not> current (playlist ms) - 1 < 0"
  shows "MusicServer_prev ms =
     (Inr (),
      ms\<lparr>player :=
           (if state (player ms) = ''play''
            then snd (Player_play (Some (queue (playlist ms) ! nat (current (playlist ms) - 1)))
                        (Player_stop (player ms)))
            else Player_stop (player ms)),
         playlist := snd (Playlist_prev (playlist ms))\<rparr>)"
proof -
  note n = prev_success [OF inv nb]
  have c: "Playlist_current ((playlist ms)\<lparr>current := current (playlist ms) - 1\<rparr>) =
      Inr (Some (queue (playlist ms) ! nat (current (playlist ms) - 1)))"
    using n(2) unfolding n(1) by simp
  show ?thesis
    unfolding MusicServer_prev_def Let_def
    by (simp add: n(1) resume_some [where x = "queue (playlist ms) ! nat (current (playlist ms) - 1)"] c)
qed

lemma requested_last: "cs \<noteq> [] \<Longrightarrow> last cs = Set_state s \<Longrightarrow> requested cs = Some s"
  by (induction cs) (auto split: option.splits if_splits)

lemma requested_play [simp]:
  "requested (pipeline (snd (Player_play (Some x) pl))) = Some PLAYING"
  by (simp add: play_some gst_def)

lemma requested_stop [simp]: "requested (pipeline (Player_stop pl)) = Some READY"
  by (simp add: Player_stop_def gst_def)

lemma server_frames [simp]:
  "playlist (snd (MusicServer_enqueue sha256 ttl data ms)) = snd (Playlist_enqueue sha256 ttl data (playlist ms))"
  "playlist (snd (MusicServer_play ms)) = playlist ms"
  "playlist (snd (MusicServer_pause ms)) = playlist ms"
  "playlist (snd (Player_handle_message (STATE_CHANGED b s1 s2 s3) ms)) = playlist ms"
  "playlist (snd (MusicServer_next ms)) = snd (Playlist_next (playlist ms))"
  "playlist (snd (MusicServer_prev ms)) = snd (Playlist_prev (playlist ms))"
  by (simp_all add: MusicServer_enqueue_def MusicServer_play_def MusicServer_pause_def
      Player_handle_message_def MusicServer_next_def MusicServer_prev_def resume_def Let_def
      case_prod_beta split: sum.splits option.splits)

lemma ex_two_playing_inv: "Playlist_inv (playlist ex_two_playing)"
  unfolding ex_two_playing_def server_frames MusicServer_init_def MusicServer.simps
  by (intro enqueue_inv init_inv)

lemma ex_second_playing_inv: "Playlist_inv (playlist ex_second_playing)"
  unfolding ex_second_playing_def server_frames by (intro next_inv ex_two_playing_inv)

lemma ex_two_paused_inv: "Playlist_inv (playlist ex_two_paused)"
  unfolding ex_two_paused_def server_frames by (rule ex_two_playing_inv)


text \<open>
  Claim C5. When a next (previous) song exists, \<^verbatim>\<open>next\<close> (\<^verbatim>\<open>prev\<close>) of the
  orchestrator returns normally and moves the cursor of the playlist; the player is
  stopped whatever its state; if the state read before the call was \<open>play\<close>, play is
  then called with the new current song (which loads its file when it is another
  object than the loaded song), and the last state asked of the engine is PLAYING; if
  it was \<open>pause\<close> or \<open>stop\<close>, nothing follows the stop, and the last state asked of the
  engine is READY: the new track is left stopped.
\<close>

theorem navigation_resume:
  "(Playlist_inv (playlist ms) \<and>
    \<not> current (playlist ms) + 1 > int (length (queue (playlist ms))) - 1 \<longrightarrow>
      (let new = queue (playlist ms) ! nat (current (playlist ms) + 1);
           ms' = snd (MusicServer_next ms)
       in fst (MusicServer_next ms) = Inr () \<and>
          playlist ms' = snd (Playlist_next (playlist ms)) \<and>
          Playlist_current (playlist ms') = Inr (Some new) \<and>
          player ms' =
            (if state (player ms) = ''play''
             then snd (Player_play (Some new) (Player_stop (player ms)))
             else Player_stop (player ms)) \<and>
          pipeline (player ms') =
            pipeline (player ms) @ [Set_state READY] @
            (if state (player ms) = ''play''
             then (if differs (song (player ms)) (Some new) then [Set_uri (path new)] else []) @
                  [Set_state PLAYING]
             else []) \<and>
          requested (pipeline (player ms')) =
            Some (if state (player ms) = ''play'' then PLAYING else READY))) \<and>
   (Playlist_inv (playlist ms) \<and> \<not> current (playlist ms) - 1 < 0 \<longrightarrow>
      (let new = queue (playlist ms) ! nat (current (playlist ms) - 1);
           ms' = snd (MusicServer_prev ms)
       in fst (MusicServer_prev ms) = Inr () \<and>
          playlist ms' = snd (Playlist_prev (playlist ms)) \<and>
          Playlist_current (playlist ms') = Inr (Some new) \<and>
          player ms' =
            (if state (player ms) = ''play''
             then snd (Player_play (Some new) (Player_stop (player ms)))
             else Player_stop (player ms)) \<and>
          pipeline (player ms') =
            pipeline (player ms) @ [Set_state READY] @
            (if state (player ms) = ''play''
             then (if differs (song (player ms)) (Some new) then [Set_uri (path new)] else []) @
                  [Set_state PLAYING]
             else []) \<and>
          requested (pipeline (player ms')) =
            Some (if state (player ms) = ''play'' then PLAYING else READY)))"
proof (intro conjI impI)
  assume "Playlist_inv (playlist ms) \<and>
    \<not> current (playlist ms) + 1 > int (length (queue (playlist ms))) - 1"
  then have inv: "Playlist_inv (playlist ms)"
    and nb: "\<not> current (playlist ms) + 1 > int (length (queue (playlist ms))) - 1" by simp_all
  note s = server_next_success [OF inv nb]
  note n = next_success [OF inv nb]
  show "let new = queue (playlist ms) ! nat (current (playlist ms) + 1);
           ms' = snd (MusicServer_next ms)
       in fst (MusicServer_next ms) = Inr () \<and>
          playlist ms' = snd (Playlist_next (playlist ms)) \<and>
          Playlist_current (playlist ms') = Inr (Some new) \<and>
          player ms' =
            (if state (player ms) = ''play''
             then snd (Player_play (Some new) (Player_stop (player ms)))
             else Player_stop (player ms)) \<and>
          pipeline (player ms') =
            pipeline (player ms) @ [Set_state READY] @
            (if state (player ms) = ''play''
             then (if differs (song (player ms)) (Some new) then [Set_uri (path new)] else []) @
                  [Set_state PLAYING]
             else []) \<and>
          requested (pipeline (player ms')) =
            Some (if state (player ms) = ''play'' then PLAYING else READY)"
    unfolding Let_def s using n(3)
    by (simp add: play_some Player_stop_def gst_def requested_last)
next
  assume "Playlist_inv (playlist ms) \<and> \<not> current (playlist ms) - 1 < 0"
  then have inv: "Playlist_inv (playlist ms)"
    and nb: "\<not> current (playlist ms) - 1 < 0" by simp_all
  note s = server_prev_success [OF inv nb]
  note n = prev_success [OF inv nb]
  show "let new = queue (playlist ms) ! nat (current (playlist ms) - 1);
           ms' = snd (MusicServer_prev ms)
       in fst (MusicServer_prev ms) = Inr () \<and>
          playlist ms' = snd (Playlist_prev (playlist ms)) \<and>
          Playlist_current (playlist ms') = Inr (Some new) \<and>
          player ms' =
            (if state (player ms) = ''play''
             then snd (Player_play (Some new) (Player_stop (player ms)))
             else Player_stop (player ms)) \<and>
          pipeline (player ms') =
            pipeline (player ms) @ [Set_state READY] @
            (if state (player ms) = ''play''
             then (if differs (song (player ms)) (Some new) then [Set_uri (path new)] else []) @
                  [Set_state PLAYING]
             else []) \<and>
          requested (pipeline (player ms')) =
            Some (if state (player ms) = ''play'' then PLAYING else READY)"
    unfolding Let_def s using n(2)
    by (simp add: play_some Player_stop_def gst_def requested_last)
qed

theorem navigation_resume_witness:
  "Playlist_inv (playlist ex_two_playing) \<and>
   \<not> current (playlist ex_two_playing) + 1 > int (length (queue (playlist ex_two_playing))) - 1 \<and>
   state (player ex_two_playing) = ''play'' \<and>
   fst (MusicServer_next ex_two_playing) = Inr () \<and>
   pipeline (player (snd (MusicServer_next ex_two_playing))) =
     [Set_uri ''/s/01'', Set_state PLAYING, Set_state READY, Set_uri ''/s/01'', Set_state PLAYING] \<and>
   Playlist_inv (playlist ex_two_paused) \<and>
   state (player ex_two_paused) = ''pause'' \<and>
   requested (pipeline (player (snd (MusicServer_next ex_two_paused)))) = Some READY \<and>
   Playlist_inv (playlist ex_second_playing) \<and>
   \<not> current (playlist ex_second_playing) - 1 < 0 \<and>
   fst (MusicServer_prev ex_second_playing) = Inr () \<and>
   requested (pipeline (player (snd (MusicServer_prev ex_second_playing)))) = Some PLAYING"
proof -
  have a: "\<not> current (playlist ex_two_playing) + 1 > int (length (queue (playlist ex_two_playing))) - 1"
    by code_simp
  have b: "\<not> current (playlist ex_two_paused) + 1 > int (length (queue (playlist ex_two_paused))) - 1"
    by code_simp
  have c: "\<not> current (playlist ex_second_playing) - 1 < 0"
    by code_simp
  have sa: "state (player ex_two_playing) = ''play''" by code_simp
  have sb: "state (player ex_two_paused) = ''pause''" by code_simp
  have sc: "state (player ex_second_playing) = ''play''" by code_simp
  have pa: "pipeline (player ex_two_playing) @ [Set_state READY] @
      (if state (player ex_two_playing) = ''play''
       then (if differs (song (player ex_two_playing))
                  (Some (queue (playlist ex_two_playing) ! nat (current (playlist ex_two_playing) + 1)))
             then [Set_uri (path (queue (playlist ex_two_playing) ! nat (current (playlist ex_two_playing) + 1)))]
             else []) @ [Set_state PLAYING]
       else []) =
     [Set_uri ''/s/01'', Set_state PLAYING, Set_state READY, Set_uri ''/s/01'', Set_state PLAYING]"
    by code_simp
  note ta = navigation_resume [of ex_two_playing, unfolded Let_def]
  note tb = navigation_resume [of ex_two_paused, unfolded Let_def]
  note tc = navigation_resume [of ex_second_playing, unfolded Let_def]
  from ta ex_two_playing_inv a have 1: "fst (MusicServer_next ex_two_playing) = Inr ()"
    and 2: "pipeline (player (snd (MusicServer_next ex_two_playing))) =
      pipeline (player ex_two_playing) @ [Set_state READY] @
      (if state (player ex_two_playing) = ''play''
       then (if differs (song (player ex_two_playing))
                  (Some (queue (playlist ex_two_playing) ! nat (current (playlist ex_two_playing) + 1)))
             then [Set_uri (path (queue (playlist ex_two_playing) ! nat (current (playlist ex_two_playing) + 1)))]
             else []) @ [Set_state PLAYING]
       else [])"
    by blast+
  from tb ex_two_paused_inv b
  have 3: "requested (pipeline (player (snd (MusicServer_next ex_two_paused)))) =
      Some (if state (player ex_two_paused) = ''play'' then PLAYING else READY)"
    by blast
  from tc ex_second_playing_inv c
  have 4: "fst (MusicServer_prev ex_second_playing) = Inr ()"
    and 5: "requested (pipeline (player (snd (MusicServer_prev ex_second_playing)))) =
      Some (if state (player ex_second_playing) = ''play'' then PLAYING else READY)"
    by blast+
  have r3: "requested (pipeline (player (snd (MusicServer_next ex_two_paused)))) = Some READY"
    unfolding 3 sb by simp
  have r5: "requested (pipeline (player (snd (MusicServer_prev ex_second_playing)))) = Some PLAYING"
    unfolding 5 sc by simp
  show ?thesis
    using ex_two_playing_inv a sa 1 2 [unfolded pa] ex_two_paused_inv sb r3 ex_second_playing_inv c 4 r5
    by (intro conjI)
qed

section \<open>C6: removing a song through the orchestrator\<close>

lemma server_remove_current:
  assumes inv: "Playlist_inv (playlist ms)"
    and cur: "Some index = Playlist_currentindex (playlist ms)"
  shows "MusicServer_remove index ms =
     (Inr (),
      ms\<lparr>player :=
           (if state (player ms) = ''play'' \<and> queue (snd (Playlist_remove index (playlist ms))) \<noteq> []
            then snd (Player_play
                   (Some (queue (snd (Playlist_remove index (playlist ms))) !
                          nat (current (snd (Playlist_remove index (playlist ms))))))
                   (Player_stop (player ms)))
            else Player_stop (player ms)),
         playlist := snd (Playlist_remove index (playlist ms))\<rparr>)"
    and "queue (snd (Playlist_remove index (playlist ms))) =
           take (nat index) (queue (playlist ms)) @ drop (Suc (nat index)) (queue (playlist ms))"
    and "Playlist_current (snd (Playlist_remove index (playlist ms))) =
           (if queue (snd (Playlist_remove index (playlist ms))) = [] then Inr None
            else Inr (Some (queue (snd (Playlist_remove index (playlist ms))) !
                          nat (current (snd (Playlist_remove index (playlist ms)))))))"
proof -
  let ?p = "playlist ms"
  let ?p' = "snd (Playlist_remove index ?p)"
  from cur have ne: "queue ?p \<noteq> []" and ic: "index = current ?p"
    by (auto simp: Playlist_currentindex_def split: if_splits)
  from inv ne ic have i0: "0 \<le> index" and i1: "index < int (length (queue ?p))"
    by (auto simp: Playlist_inv_def cursor_ok_def)
  from inv have ok: "store_ok (queue ?p) ?p" by (simp add: Playlist_inv_def)
  have le: "\<not> index > int (length (queue ?p)) - 1" using i1 by simp
  have j: "deque_index (queue ?p) index = Inr (nat index)"
    using deque_index_ok [of "queue ?p" index] i0 i1 by simp
  note r = remove_at [OF ok le j]
  show "queue ?p' = take (nat index) (queue ?p) @ drop (Suc (nat index)) (queue ?p)" by (rule r(2))
  have inv': "Playlist_inv ?p'" using inv by (rule remove_inv)
  show c: "Playlist_current ?p' =
           (if queue ?p' = [] then Inr None else Inr (Some (queue ?p' ! nat (current ?p'))))"
  proof (cases "queue ?p' = []")
    case True
    then show ?thesis by (simp add: Playlist_current_def)
  next
    case False
    with current_of_inv [OF inv' False] show ?thesis by simp
  qed
  obtain p' where e: "Playlist_remove index ?p = (Inr (), p')"
    using r(1) by (cases "Playlist_remove index ?p") auto
  then have p': "?p' = p'" by simp
  have n0: "\<not> index < 0" using i0 by simp
  show "MusicServer_remove index ms =
     (Inr (),
      ms\<lparr>player :=
           (if state (player ms) = ''play'' \<and> queue ?p' \<noteq> []
            then snd (Player_play (Some (queue ?p' ! nat (current ?p'))) (Player_stop (player ms)))
            else Player_stop (player ms)),
         playlist := ?p'\<rparr>)"
    using c unfolding p' MusicServer_remove_def Let_def if_not_P [OF n0] if_P [OF cur]
    by (simp add: e play_some)
qed

lemma server_remove_other:
  "0 \<le> index \<Longrightarrow> Some index \<noteq> Playlist_currentindex (playlist ms) \<Longrightarrow>
   MusicServer_remove index ms =
     (fst (Playlist_remove index (playlist ms)),
      ms\<lparr>playlist := snd (Playlist_remove index (playlist ms))\<rparr>)"
  by (simp add: MusicServer_remove_def case_prod_beta)

text \<open>
  Claim C6. \<^verbatim>\<open>remove(index)\<close> of the orchestrator raises ValueError for a negative
  index and changes nothing. For an index that is not the current index of the
  playlist, the playlist removes the slot (or raises) and the player is not touched at
  all. For the current index with the player in state \<open>play\<close>, the player is stopped,
  the slot is removed, and play is called with the new current song when the queue is
  not empty: the last state asked of the engine is then PLAYING, and READY when the
  queue became empty.
\<close>

theorem removal_frame:
  "(index < 0 \<longrightarrow>
      MusicServer_remove index ms = (Inl (ValueError ''index must be non-negative''), ms)) \<and>
   (0 \<le> index \<and> Some index \<noteq> Playlist_currentindex (playlist ms) \<longrightarrow>
      MusicServer_remove index ms =
        (fst (Playlist_remove index (playlist ms)),
         ms\<lparr>playlist := snd (Playlist_remove index (playlist ms))\<rparr>) \<and>
      player (snd (MusicServer_remove index ms)) = player ms) \<and>
   (Playlist_inv (playlist ms) \<and> Some index = Playlist_currentindex (playlist ms) \<and>
    state (player ms) = ''play'' \<longrightarrow>
      (let p' = snd (Playlist_remove index (playlist ms));
           ms' = snd (MusicServer_remove index ms)
       in fst (MusicServer_remove index ms) = Inr () \<and>
          playlist ms' = p' \<and>
          queue p' = take (nat index) (queue (playlist ms)) @
                     drop (Suc (nat index)) (queue (playlist ms)) \<and>
          Playlist_current p' =
            (if queue p' = [] then Inr None else Inr (Some (queue p' ! nat (current p')))) \<and>
          player ms' =
            (if queue p' = [] then Player_stop (player ms)
             else snd (Player_play (Some (queue p' ! nat (current p'))) (Player_stop (player ms)))) \<and>
          requested (pipeline (player ms')) = Some (if queue p' = [] then READY else PLAYING)))"
proof (intro conjI impI)
  assume "index < 0"
  then show "MusicServer_remove index ms = (Inl (ValueError ''index must be non-negative''), ms)"
    by (simp add: MusicServer_remove_def)
next
  assume a: "0 \<le> index \<and> Some index \<noteq> Playlist_currentindex (playlist ms)"
  then show "MusicServer_remove index ms =
        (fst (Playlist_remove index (playlist ms)),
         ms\<lparr>playlist := snd (Playlist_remove index (playlist ms))\<rparr>)"
    by (simp add: server_remove_other)
  from a show "player (snd (MusicServer_remove index ms)) = player ms"
    by (simp add: server_remove_other)
next
  assume "Playlist_inv (playlist ms) \<and> Some index = Playlist_currentindex (playlist ms) \<and>
    state (player ms) = ''play''"
  then have inv: "Playlist_inv (playlist ms)"
    and cur: "Some index = Playlist_currentindex (playlist ms)"
    and st: "state (player ms) = ''play''" by simp_all
  note r = server_remove_current [OF inv cur]
  show "let p' = snd (Playlist_remove index (playlist ms));
           ms' = snd (MusicServer_remove index ms)
       in fst (MusicServer_remove index ms) = Inr () \<and>
          playlist ms' = p' \<and>
          queue p' = take (nat index) (queue (playlist ms)) @
                     drop (Suc (nat index)) (queue (playlist ms)) \<and>
          Playlist_current p' =
            (if queue p' = [] then Inr None else Inr (Some (queue p' ! nat (current p')))) \<and>
          player ms' =
            (if queue p' = [] then Player_stop (player ms)
             else snd (Player_play (Some (queue p' ! nat (current p'))) (Player_stop (player ms)))) \<and>
          requested (pipeline (player ms')) = Some (if queue p' = [] then READY else PLAYING)"
    unfolding Let_def r(1) using r(2) r(3) st by simp
qed


theorem removal_frame_witness:
  "MusicServer_remove (- 1) ex_playing = (Inl (ValueError ''index must be non-negative''), ex_playing) \<and>
   Some 0 \<noteq> Playlist_currentindex (playlist ex_second_playing) \<and>
   fst (MusicServer_remove 0 ex_second_playing) = Inr () \<and>
   player (snd (MusicServer_remove 0 ex_second_playing)) = player ex_second_playing \<and>
   Playlist_inv (playlist ex_two_playing) \<and>
   Some 0 = Playlist_currentindex (playlist ex_two_playing) \<and>
   state (player ex_two_playing) = ''play'' \<and>
   fst (MusicServer_remove 0 ex_two_playing) = Inr () \<and>
   map title (queue (playlist (snd (MusicServer_remove 0 ex_two_playing)))) = [''B''] \<and>
   requested (pipeline (player (snd (MusicServer_remove 0 ex_two_playing)))) = Some PLAYING"
proof -
  have a: "(- 1 :: int) < 0" by simp
  have b: "(0::int) \<le> 0 \<and> Some 0 \<noteq> Playlist_currentindex (playlist ex_second_playing)" by code_simp
  have c: "Some 0 = Playlist_currentindex (playlist ex_two_playing)" by code_simp
  have s: "state (player ex_two_playing) = ''play''" by code_simp
  have f: "fst (Playlist_remove 0 (playlist ex_second_playing)) = Inr ()" by code_simp
  have q: "map title (take (nat 0) (queue (playlist ex_two_playing)) @
                      drop (Suc (nat 0)) (queue (playlist ex_two_playing))) = [''B'']" by code_simp
  from removal_frame [of "- 1" ex_playing] a
  have 1: "MusicServer_remove (- 1) ex_playing = (Inl (ValueError ''index must be non-negative''), ex_playing)"
    by blast
  from removal_frame [of 0 ex_second_playing] b
  have 2: "MusicServer_remove 0 ex_second_playing =
        (fst (Playlist_remove 0 (playlist ex_second_playing)),
         ex_second_playing\<lparr>playlist := snd (Playlist_remove 0 (playlist ex_second_playing))\<rparr>)"
    and 3: "player (snd (MusicServer_remove 0 ex_second_playing)) = player ex_second_playing"
    by blast+
  from removal_frame [of 0 ex_two_playing, unfolded Let_def] ex_two_playing_inv c s
  have 4: "fst (MusicServer_remove 0 ex_two_playing) = Inr ()"
    and 5: "playlist (snd (MusicServer_remove 0 ex_two_playing)) =
       snd (Playlist_remove 0 (playlist ex_two_playing))"
    and 6: "queue (snd (Playlist_remove 0 (playlist ex_two_playing))) =
       take (nat 0) (queue (playlist ex_two_playing)) @
       drop (Suc (nat 0)) (queue (playlist ex_two_playing))"
    and 7: "requested (pipeline (player (snd (MusicServer_remove 0 ex_two_playing)))) =
       Some (if queue (snd (Playlist_remove 0 (playlist ex_two_playing))) = [] then READY else PLAYING)"
    by blast+
  have 8: "map title (queue (playlist (snd (MusicServer_remove 0 ex_two_playing)))) = [''B'']"
    unfolding 5 6 by (rule q)
  then have "queue (playlist (snd (MusicServer_remove 0 ex_two_playing))) \<noteq> []" by auto
  then have 9: "requested (pipeline (player (snd (MusicServer_remove 0 ex_two_playing)))) = Some PLAYING"
    unfolding 7 5 by simp
  have 10: "fst (MusicServer_remove 0 ex_second_playing) = Inr ()"
    unfolding 2 using f by simp
  show ?thesis using 1 b 10 3 ex_two_playing_inv c s 4 8 9 by (intro conjI) simp_all
qed


section \<open>C10: removing the current song while paused\<close>

text \<open>
  Claim C10. When the index is the current index of the playlist and the player is in
  state \<open>pause\<close>, \<^verbatim>\<open>remove\<close> of the orchestrator removes the slot and sends the engine
  one \<^verbatim>\<open>set_state(READY)\<close> and nothing else: play is not called again, the last state
  asked of the engine is READY, and when the engine reports it the state of the player
  is \<open>stop\<close>, not \<open>pause\<close>.
\<close>

theorem removal_while_paused:
  "Playlist_inv (playlist ms) \<and> Some index = Playlist_currentindex (playlist ms) \<and>
   state (player ms) = ''pause'' \<longrightarrow>
     (let ms' = snd (MusicServer_remove index ms)
      in fst (MusicServer_remove index ms) = Inr () \<and>
         playlist ms' = snd (Playlist_remove index (playlist ms)) \<and>
         player ms' = Player_stop (player ms) \<and>
         pipeline (player ms') = pipeline (player ms) @ [Set_state READY] \<and>
         requested (pipeline (player ms')) = Some READY \<and>
         state (player (snd (Player_handle_message
                  (STATE_CHANGED True PAUSED READY VOID_PENDING) ms'))) = ''stop'')"
proof
  assume "Playlist_inv (playlist ms) \<and> Some index = Playlist_currentindex (playlist ms) \<and>
   state (player ms) = ''pause''"
  then have inv: "Playlist_inv (playlist ms)"
    and cur: "Some index = Playlist_currentindex (playlist ms)"
    and st: "state (player ms) = ''pause''" by simp_all
  note r = server_remove_current [OF inv cur]
  show "let ms' = snd (MusicServer_remove index ms)
      in fst (MusicServer_remove index ms) = Inr () \<and>
         playlist ms' = snd (Playlist_remove index (playlist ms)) \<and>
         player ms' = Player_stop (player ms) \<and>
         pipeline (player ms') = pipeline (player ms) @ [Set_state READY] \<and>
         requested (pipeline (player ms')) = Some READY \<and>
         state (player (snd (Player_handle_message
                  (STATE_CHANGED True PAUSED READY VOID_PENDING) ms'))) = ''stop''"
    unfolding Let_def r(1) using st
    by (simp add: Player_stop_def gst_def Player_handle_message_def Player_STATES_def)
qed

theorem removal_while_paused_witness:
  "Playlist_inv (playlist ex_two_paused) \<and>
   Some 0 = Playlist_currentindex (playlist ex_two_paused) \<and>
   state (player ex_two_paused) = ''pause'' \<and>
   fst (MusicServer_remove 0 ex_two_paused) = Inr () \<and>
   pipeline (player (snd (MusicServer_remove 0 ex_two_paused))) =
     [Set_uri ''/s/01'', Set_state PLAYING, Set_state PAUSED, Set_state READY] \<and>
   requested (pipeline (player (snd (MusicServer_remove 0 ex_two_paused)))) = Some READY"
proof -
  have c: "Some 0 = Playlist_currentindex (playlist ex_two_paused)" by code_simp
  have s: "state (player ex_two_paused) = ''pause''" by code_simp
  have p: "pipeline (player ex_two_paused) = [Set_uri ''/s/01'', Set_state PLAYING, Set_state PAUSED]"
    by code_simp
  from removal_while_paused [of ex_two_paused 0, unfolded Let_def] ex_two_paused_inv c s
  have 1: "fst (MusicServer_remove 0 ex_two_paused) = Inr ()"
    and 2: "pipeline (player (snd (MusicServer_remove 0 ex_two_paused))) =
       pipeline (player ex_two_paused) @ [Set_state READY]"
    and 3: "requested (pipeline (player (snd (MusicServer_remove 0 ex_two_paused)))) = Some READY"
    by blast+
  show ?thesis using ex_two_paused_inv c s 1 2 [unfolded p] 3 by (intro conjI) simp_all
qed

section \<open>C8: end of stream\<close>

lemma playereos_last:
  "current (playlist ms) + 1 > int (length (queue (playlist ms))) - 1 \<Longrightarrow>
   MusicServer_playereos ms = (Inr (), ms\<lparr>player := gst [Set_state READY] (player ms)\<rparr>)"
  by (simp add: MusicServer_playereos_def next_boundary)

lemma playereos_next:
  "Playlist_inv (playlist ms) \<Longrightarrow>
   \<not> current (playlist ms) + 1 > int (length (queue (playlist ms))) - 1 \<Longrightarrow>
   MusicServer_playereos ms = MusicServer_next ms"
  by (simp add: MusicServer_playereos_def server_next_success)


text \<open>
  Claim C8. An end-of-stream message makes the player call \<^verbatim>\<open>playereos\<close>. When the
  cursor has no next song, the IndexError of \<^verbatim>\<open>next\<close> is swallowed: the call returns
  normally, the playlist is as it was, the engine has been asked to stop, and the state
  it then reports is \<open>stop\<close>. When there is a next song, the call is \<^verbatim>\<open>next\<close>: the
  cursor moves to it, and play is called with it if the state was \<open>play\<close>.
\<close>

theorem end_of_stream:
  "Player_handle_message EOS ms = MusicServer_playereos ms \<and>
   (current (playlist ms) + 1 > int (length (queue (playlist ms))) - 1 \<longrightarrow>
      MusicServer_playereos ms = (Inr (), ms\<lparr>player := gst [Set_state READY] (player ms)\<rparr>) \<and>
      playlist (snd (MusicServer_playereos ms)) = playlist ms \<and>
      requested (pipeline (player (snd (MusicServer_playereos ms)))) = Some READY \<and>
      state (player (snd (Player_handle_message (STATE_CHANGED True PLAYING READY VOID_PENDING)
               (snd (MusicServer_playereos ms))))) = ''stop'') \<and>
   (Playlist_inv (playlist ms) \<and>
    \<not> current (playlist ms) + 1 > int (length (queue (playlist ms))) - 1 \<longrightarrow>
      (let new = queue (playlist ms) ! nat (current (playlist ms) + 1);
           ms' = snd (MusicServer_playereos ms)
       in fst (MusicServer_playereos ms) = Inr () \<and>
          playlist ms' = snd (Playlist_next (playlist ms)) \<and>
          Playlist_current (playlist ms') = Inr (Some new) \<and>
          player ms' =
            (if state (player ms) = ''play''
             then snd (Player_play (Some new) (Player_stop (player ms)))
             else Player_stop (player ms)) \<and>
          requested (pipeline (player ms')) =
            Some (if state (player ms) = ''play'' then PLAYING else READY)))"
proof (intro conjI impI)
  show "Player_handle_message EOS ms = MusicServer_playereos ms"
    by (simp add: Player_handle_message_def)
next
  assume a: "current (playlist ms) + 1 > int (length (queue (playlist ms))) - 1"
  note e = playereos_last [OF a]
  show "MusicServer_playereos ms = (Inr (), ms\<lparr>player := gst [Set_state READY] (player ms)\<rparr>)"
    by (rule e)
  show "playlist (snd (MusicServer_playereos ms)) = playlist ms" by (simp add: e)
  show "requested (pipeline (player (snd (MusicServer_playereos ms)))) = Some READY"
    by (simp add: e gst_def)
  show "state (player (snd (Player_handle_message (STATE_CHANGED True PLAYING READY VOID_PENDING)
               (snd (MusicServer_playereos ms))))) = ''stop''"
    by (simp add: e Player_handle_message_def Player_STATES_def)
next
  assume "Playlist_inv (playlist ms) \<and>
    \<not> current (playlist ms) + 1 > int (length (queue (playlist ms))) - 1"
  then have inv: "Playlist_inv (playlist ms)"
    and nb: "\<not> current (playlist ms) + 1 > int (length (queue (playlist ms))) - 1" by simp_all
  note s = server_next_success [OF inv nb]
  note n = next_success [OF inv nb]
  show "let new = queue (playlist ms) ! nat (current (playlist ms) + 1);
           ms' = snd (MusicServer_playereos ms)
       in fst (MusicServer_playereos ms) = Inr () \<and>
          playlist ms' = snd (Playlist_next (playlist ms)) \<and>
          Playlist_current (playlist ms') = Inr (Some new) \<and>
          player ms' =
            (if state (player ms) = ''play''
             then snd (Player_play (Some new) (Player_stop (player ms)))
             else Player_stop (player ms)) \<and>
          requested (pipeline (player ms')) =
            Some (if state (player ms) = ''play'' then PLAYING else READY)"
    unfolding Let_def playereos_next [OF inv nb] s using n(3)
    by simp
qed

theorem end_of_stream_witness:
  "current (playlist ex_playing) + 1 > int (length (queue (playlist ex_playing))) - 1 \<and>
   fst (MusicServer_playereos ex_playing) = Inr () \<and>
   current (playlist (snd (MusicServer_playereos ex_playing))) = current (playlist ex_playing) \<and>
   requested (pipeline (player (snd (MusicServer_playereos ex_playing)))) = Some READY \<and>
   Playlist_inv (playlist ex_two_playing) \<and>
   \<not> current (playlist ex_two_playing) + 1 > int (length (queue (playlist ex_two_playing))) - 1 \<and>
   fst (MusicServer_playereos ex_two_playing) = Inr () \<and>
   map_option title (projr (Playlist_current (playlist (snd (MusicServer_playereos ex_two_playing))))) =
     Some ''B'' \<and>
   requested (pipeline (player (snd (MusicServer_playereos ex_two_playing)))) = Some PLAYING"
proof -
  have a: "current (playlist ex_playing) + 1 > int (length (queue (playlist ex_playing))) - 1"
    by code_simp
  have b: "\<not> current (playlist ex_two_playing) + 1 > int (length (queue (playlist ex_two_playing))) - 1"
    by code_simp
  have s: "state (player ex_two_playing) = ''play''" by code_simp
  have t: "title (queue (playlist ex_two_playing) ! nat (current (playlist ex_two_playing) + 1)) = ''B''"
    by code_simp
  from end_of_stream [of ex_playing] a
  have 1: "MusicServer_playereos ex_playing =
      (Inr (), ex_playing\<lparr>player := gst [Set_state READY] (player ex_playing)\<rparr>)"
    and 2: "requested (pipeline (player (snd (MusicServer_playereos ex_playing)))) = Some READY"
    by blast+
  from end_of_stream [of ex_two_playing, unfolded Let_def] ex_two_playing_inv b
  have 3: "fst (MusicServer_playereos ex_two_playing) = Inr ()"
    and 4: "Playlist_current (playlist (snd (MusicServer_playereos ex_two_playing))) =
      Inr (Some (queue (playlist ex_two_playing) ! nat (current (playlist ex_two_playing) + 1)))"
    and 5: "requested (pipeline (player (snd (MusicServer_playereos ex_two_playing)))) =
            Some (if state (player ex_two_playing) = ''play'' then PLAYING else READY)"
    by blast+
  have 6: "map_option title (projr (Playlist_current (playlist (snd (MusicServer_playereos ex_two_playing))))) =
     Some ''B''"
    unfolding 4 by (simp add: t)
  have 7: "requested (pipeline (player (snd (MusicServer_playereos ex_two_playing)))) = Some PLAYING"
    unfolding 5 s by simp
  have 8: "fst (MusicServer_playereos ex_playing) = Inr ()"
    "current (playlist (snd (MusicServer_playereos ex_playing))) = current (playlist ex_playing)"
    unfolding 1 by simp_all
  show ?thesis using a 8 2 ex_two_playing_inv b 3 6 7 by (intro conjI)
qed

section \<open>C7: skipping\<close>

text \<open>
  Claim C7, amended. \<^verbatim>\<open>skipbackwards\<close> seeks to \<open>max(position - 10, 0)\<close> and
  \<^verbatim>\<open>skipforwards\<close> to \<open>min(position + 10, duration)\<close> seconds, position being the last
  observed one; both targets lie in \<open>[0, duration]\<close> when the position does. The skips
  raise ValueError "player stopped" exactly when the state is \<open>stop\<close>, the duration of
  the song is unknown, or no position has been observed: one precondition more than
  seek, which for a fraction in \<open>[0, 1]\<close> fails exactly when the state is \<open>stop\<close> or
  the duration is unknown. Seconds are real numbers here; the rounding of Python floats
  is not modelled.
\<close>

theorem skip_semantics:
  "(state pl = ''stop'' \<longrightarrow>
      Player_skipbackwards d pl = (Inl (ValueError ''player stopped''), pl) \<and>
      Player_skipforwards d pl = (Inl (ValueError ''player stopped''), pl)) \<and>
   (song pl = Some s \<and> (Song_duration d s = None \<or> position pl = None) \<longrightarrow>
      Player_skipbackwards d pl = (Inl (ValueError ''player stopped''), pl) \<and>
      Player_skipforwards d pl = (Inl (ValueError ''player stopped''), pl)) \<and>
   (song pl = Some s \<and> state pl \<noteq> ''stop'' \<and> Song_duration d s = Some dur \<and>
    position pl = Some pos \<longrightarrow>
      Player_skipbackwards d pl =
        (Inr (), gst [Seek_simple (py_int (max (pos - 10) 0 * Gst_SECOND))] pl) \<and>
      Player_skipforwards d pl =
        (Inr (), gst [Seek_simple (py_int (min (pos + 10) dur * Gst_SECOND))] pl) \<and>
      (0 \<le> pos \<and> pos \<le> dur \<longrightarrow>
         0 \<le> max (pos - 10) 0 \<and> max (pos - 10) 0 \<le> dur \<and>
         0 \<le> min (pos + 10) dur \<and> min (pos + 10) dur \<le> dur)) \<and>
   (song pl = Some s \<longrightarrow>
      (fst (Player_skipbackwards d pl) = Inr ()) =
        (state pl \<noteq> ''stop'' \<and> Song_duration d s \<noteq> None \<and> position pl \<noteq> None) \<and>
      (fst (Player_skipforwards d pl) = Inr ()) =
        (state pl \<noteq> ''stop'' \<and> Song_duration d s \<noteq> None \<and> position pl \<noteq> None)) \<and>
   (song pl = Some s \<and> 0 \<le> x \<and> x \<le> 1 \<longrightarrow>
      (fst (Player_seek d x pl) = Inr ()) = (state pl \<noteq> ''stop'' \<and> Song_duration d s \<noteq> None))"
proof (intro conjI impI)
  assume "state pl = ''stop''"
  then show "Player_skipbackwards d pl = (Inl (ValueError ''player stopped''), pl)"
    "Player_skipforwards d pl = (Inl (ValueError ''player stopped''), pl)"
    by (simp_all add: Player_skipbackwards_def Player_skipforwards_def)
next
  assume "song pl = Some s \<and> (Song_duration d s = None \<or> position pl = None)"
  then show "Player_skipbackwards d pl = (Inl (ValueError ''player stopped''), pl)"
    "Player_skipforwards d pl = (Inl (ValueError ''player stopped''), pl)"
    by (auto simp: Player_skipbackwards_def Player_skipforwards_def split: option.splits)
next
  assume a: "song pl = Some s \<and> state pl \<noteq> ''stop'' \<and> Song_duration d s = Some dur \<and>
    position pl = Some pos"
  then show "Player_skipbackwards d pl =
        (Inr (), gst [Seek_simple (py_int (max (pos - 10) 0 * Gst_SECOND))] pl)"
    "Player_skipforwards d pl =
        (Inr (), gst [Seek_simple (py_int (min (pos + 10) dur * Gst_SECOND))] pl)"
    by (simp_all add: Player_skipbackwards_def Player_skipforwards_def Let_def)
  assume "0 \<le> pos \<and> pos \<le> dur"
  then show "0 \<le> max (pos - 10) 0" "max (pos - 10) 0 \<le> dur"
    "0 \<le> min (pos + 10) dur" "min (pos + 10) dur \<le> dur"
    by simp_all
next
  assume "song pl = Some s"
  then show "(fst (Player_skipbackwards d pl) = Inr ()) =
        (state pl \<noteq> ''stop'' \<and> Song_duration d s \<noteq> None \<and> position pl \<noteq> None)"
    "(fst (Player_skipforwards d pl) = Inr ()) =
        (state pl \<noteq> ''stop'' \<and> Song_duration d s \<noteq> None \<and> position pl \<noteq> None)"
    by (auto simp: Player_skipbackwards_def Player_skipforwards_def Let_def split: option.splits)
next
  assume "song pl = Some s \<and> 0 \<le> x \<and> x \<le> 1"
  then show "(fst (Player_seek d x pl) = Inr ()) = (state pl \<noteq> ''stop'' \<and> Song_duration d s \<noteq> None)"
    by (auto simp: Player_seek_def split: option.splits)
qed

text \<open>
  The claim as it was stated (the skips fail exactly when the state is stopped or the
  duration is unknown, as seek does) fails on a playing server whose song has a known
  duration and whose position has not been observed yet: both skips raise, seek does
  not.
\<close>

theorem skip_semantics_counterexample:
  "state (player ex_no_position) \<noteq> ''stop'' \<and>
   map_option (Song_duration (durations ex_no_position)) (song (player ex_no_position)) =
     Some (Some 100) \<and>
   position (player ex_no_position) = None \<and>
   fst (MusicServer_skipforwards ex_no_position) = Inl (ValueError ''player stopped'') \<and>
   fst (MusicServer_skipbackwards ex_no_position) = Inl (ValueError ''player stopped'') \<and>
   fst (MusicServer_seek (1 / 2) ex_no_position) = Inr ()"
  by code_simp

theorem skip_semantics_witness:
  "song (player ex_positioned) = Some \<lparr>ident = 0, title = ''A'', path = ''/s/01'', hash = ''01''\<rparr> \<and>
   state (player ex_positioned) \<noteq> ''stop'' \<and>
   Song_duration (durations ex_positioned) \<lparr>ident = 0, title = ''A'', path = ''/s/01'', hash = ''01''\<rparr> =
     Some 100 \<and>
   position (player ex_positioned) = Some 5 \<and>
   pipeline (snd (Player_skipbackwards (durations ex_positioned) (player ex_positioned))) =
     [Set_uri ''/s/01'', Set_state PLAYING, Seek_simple 0] \<and>
   pipeline (snd (Player_skipforwards (durations ex_positioned) (player ex_positioned))) =
     [Set_uri ''/s/01'', Set_state PLAYING, Seek_simple 15000000000] \<and>
   song (player ex_no_position) = Some \<lparr>ident = 0, title = ''A'', path = ''/s/01'', hash = ''01''\<rparr> \<and>
   position (player ex_no_position) = None \<and>
   Player_skipforwards (durations ex_no_position) (player ex_no_position) =
     (Inl (ValueError ''player stopped''), player ex_no_position)"
proof -
  let ?s = "\<lparr>ident = 0, title = ''A'', path = ''/s/01'', hash = ''01''\<rparr>"
  have a: "song (player ex_positioned) = Some ?s" by code_simp
  have b: "state (player ex_positioned) \<noteq> ''stop''" by code_simp
  have c: "Song_duration (durations ex_positioned) ?s = Some 100" by code_simp
  have d: "position (player ex_positioned) = Some 5" by code_simp
  have p: "pipeline (player ex_positioned) = [Set_uri ''/s/01'', Set_state PLAYING]" by code_simp
  have e: "song (player ex_no_position) = Some ?s" by code_simp
  have f: "position (player ex_no_position) = None" by code_simp
  have v1: "py_int (max (5 - 10) 0 * Gst_SECOND) = 0" by (simp add: py_int_def Gst_SECOND_def)
  have v2: "py_int (min (5 + 10) 100 * Gst_SECOND) = 15000000000"
    by (simp add: py_int_def Gst_SECOND_def)
  from skip_semantics [of "player ex_positioned" "durations ex_positioned" ?s 100 5 0] a b c d
  have 1: "Player_skipbackwards (durations ex_positioned) (player ex_positioned) =
        (Inr (), gst [Seek_simple (py_int (max (5 - 10) 0 * Gst_SECOND))] (player ex_positioned))"
    and 2: "Player_skipforwards (durations ex_positioned) (player ex_positioned) =
        (Inr (), gst [Seek_simple (py_int (min (5 + 10) 100 * Gst_SECOND))] (player ex_positioned))"
    by blast+
  from skip_semantics [of "player ex_no_position" "durations ex_no_position" ?s 100 5 0] e f
  have 3: "Player_skipforwards (durations ex_no_position) (player ex_no_position) =
     (Inl (ValueError ''player stopped''), player ex_no_position)"
    by blast
  have 4: "pipeline (snd (Player_skipbackwards (durations ex_positioned) (player ex_positioned))) =
     [Set_uri ''/s/01'', Set_state PLAYING, Seek_simple 0]"
    unfolding 1 v1 by (simp add: gst_def p)
  have 5: "pipeline (snd (Player_skipforwards (durations ex_positioned) (player ex_positioned))) =
     [Set_uri ''/s/01'', Set_state PLAYING, Seek_simple 15000000000]"
    unfolding 2 v2 by (simp add: gst_def p)
  show ?thesis using a b c d 4 5 e f 3 by (intro conjI)
qed

end
